theory Spec2Isabelle
  imports Main "HOL-Library.Sublist"
begin

section \<open>Data model of lfpod.go\<close>

text \<open>
  Go strings and byte slices are byte sequences: \<open>string\<close>. A pointer that may be
  nil is an \<open>option\<close>. A slice that the code compares with nil
  (\<open>keywords == nil\<close>) is a \<open>list option\<close>: \<open>None\<close> is the nil slice (the JSON
  key absent or null), \<open>Some []\<close> the empty, non-nil slice that the JSON decoder
  builds for \<open>"keywords": []\<close>.
\<close>

record YtMedia =
  Description :: string

record YtEntry =
  Title :: string
  VideoId :: string
  Published :: string
  Media :: "YtMedia option"

record ConfFeed =
  Name :: string
  ChannelId :: string
  Keywords :: "string list option"

record Conf =
  Feeds :: "ConfFeed list"
  ServerAddress :: string

section \<open>Strings\<close>

text \<open>\<open>strings.Contains s substr\<close>: \<open>substr\<close> occurs in \<open>s\<close> as a contiguous run of bytes.\<close>

fun strings_Contains :: "string \<Rightarrow> string \<Rightarrow> bool" where
  "strings_Contains [] substr = (substr = [])"
| "strings_Contains (c # s) substr = (prefix substr (c # s) \<or> strings_Contains s substr)"

section \<open>parseFeed: the keyword filter\<close>

text \<open>
  The inner loop of \<open>parseFeed\<close> over the keywords, for one entry: at the first keyword
  whose lower-cased form occurs in the lower-cased title, the entry is appended to
  \<open>f.Entries\<close> and the loop is left (\<open>break\<close>). \<open>lower\<close> stands for \<open>strings.ToLower\<close>,
  whose Unicode case tables are not part of the repository.
\<close>

fun keywordLoop :: "(string \<Rightarrow> string) \<Rightarrow> YtEntry \<Rightarrow> string list \<Rightarrow> YtEntry list \<Rightarrow> YtEntry list" where
  "keywordLoop lower entry [] f = f"
| "keywordLoop lower entry (k # ks) f =
     (let tl = lower (Title entry); kl = lower k
      in if strings_Contains tl kl then f @ [entry] else keywordLoop lower entry ks f)"

text \<open>The outer loop over \<open>ytfeed.Entries\<close>, with \<open>f.Entries\<close> as accumulator.\<close>

fun entryLoop :: "(string \<Rightarrow> string) \<Rightarrow> YtEntry list \<Rightarrow> string list \<Rightarrow> YtEntry list \<Rightarrow> YtEntry list" where
  "entryLoop lower [] keywords f = f"
| "entryLoop lower (entry # es) keywords f =
     entryLoop lower es keywords (keywordLoop lower entry keywords f)"

text \<open>
  \<open>parseFeed\<close> after a successful \<open>xml.Unmarshal\<close>: the nil check, then the two loops
  starting from the empty feed \<open>f\<close>.
\<close>

definition filterEntries :: "(string \<Rightarrow> string) \<Rightarrow> YtEntry list \<Rightarrow> string list option \<Rightarrow> YtEntry list" where
  "filterEntries lower entries keywords =
     (case keywords of
        None \<Rightarrow> entries
      | Some ks \<Rightarrow> entryLoop lower entries ks [])"

text \<open>
  The specification's words: a title contains a keyword as a case-insensitive substring
  when the lower-cased keyword occurs somewhere inside the lower-cased title.
\<close>

definition ciSubstring :: "(string \<Rightarrow> string) \<Rightarrow> string \<Rightarrow> string \<Rightarrow> bool" where
  "ciSubstring lower title k = (\<exists>pre suf. lower title = pre @ lower k @ suf)"

text \<open>ASCII lower-casing, the value of \<open>strings.ToLower\<close> on ASCII text.\<close>

definition lowerByte :: "char \<Rightarrow> char" where
  "lowerByte c =
     (let n = (of_char c :: nat) in if 65 \<le> n \<and> n \<le> 90 then char_of (n + 32) else c)"

definition asciiLower :: "string \<Rightarrow> string" where
  "asciiLower s = map lowerByte s"

section \<open>Artifact paths\<close>

text \<open>
  \<open>filepath.Join\<close> and \<open>filepath.Clean\<close> of the Go library, on a system whose
  separator is the slash. \<open>Clean\<close> works on the elements between separators: empty
  elements and \<open>.\<close> are dropped; \<open>..\<close> removes the element before it when that is a
  real one, is dropped at the root of a rooted path and is kept otherwise; the empty
  result is \<open>.\<close>. The list \<open>out\<close> holds the elements kept so far, last one first.
\<close>

fun splitSep :: "string \<Rightarrow> string list" where
  "splitSep [] = [[]]"
| "splitSep (c # cs) =
     (if c = CHR ''/'' then [] # splitSep cs
      else (case splitSep cs of [] \<Rightarrow> [[c]] | e # es \<Rightarrow> (c # e) # es))"

fun joinSep :: "string list \<Rightarrow> string" where
  "joinSep [] = []"
| "joinSep [e] = e"
| "joinSep (e # es) = e @ ''/'' @ joinSep es"

definition cleanStep :: "bool \<Rightarrow> string list \<Rightarrow> string \<Rightarrow> string list" where
  "cleanStep rooted out e =
     (if e = [] \<or> e = ''.'' then out
      else if e = ''..'' then
        (case out of
           [] \<Rightarrow> if rooted then [] else [''..'']
         | x # xs \<Rightarrow> if x = ''..'' then ''..'' # out else xs)
      else e # out)"

definition filepath_Clean :: "string \<Rightarrow> string" where
  "filepath_Clean path =
     (if path = [] then ''.''
      else
        let rooted = (hd path = CHR ''/'');
            out = foldl (cleanStep rooted) [] (splitSep path);
            s = (if rooted then ''/'' else []) @ joinSep (rev out)
        in if s = [] then ''.'' else s)"

text \<open>\<open>Join\<close> skips leading empty elements, joins the rest with the separator and cleans.\<close>

fun filepath_Join :: "string list \<Rightarrow> string" where
  "filepath_Join [] = []"
| "filepath_Join (e # es) =
     (if e = [] then filepath_Join es else filepath_Clean (joinSep (e # es)))"

definition getAudioFileName :: "string \<Rightarrow> string \<Rightarrow> string" where
  "getAudioFileName channelId videoId =
     (let format = ''opus''
      in filepath_Join [''audio'', channelId, videoId @ ''.'' @ format])"

section \<open>The world outside the program\<close>

text \<open>
  The program acts on files and on a log, and calls the network, two external tools and
  the Go library. A \<open>world\<close> holds what the program changes: the files under the
  working directory (path to content) and the trace of its outside actions in order.
\<close>

datatype event =
    Log string
  | HttpGet string
  | Probe string
  | Download string
  | Convert string string
  | Rename string string
  | Remove string

record world =
  files :: "string \<rightharpoonup> string"
  trace :: "event list"

text \<open>
  A Go \<open>error\<close> is its message; the file system errors the code could tell apart are a
  datatype. A function that may leave through \<open>log.Fatal\<close> (which logs and exits the
  process with status 1) or through a run-time panic returns a \<open>result\<close>.
\<close>

datatype oserror = ErrNotExist | ErrOther string

datatype 'a result = Return 'a world | Exit world | Panicked world

record Response =
  StatusCode :: int
  Status :: string
  Body :: "string + string"

record Enclosure =
  Url :: string
  Length :: string
  Type :: string

record Item =
  ItemTitle :: string
  ItemLink :: string
  ItemDescription :: string
  Updated :: nat
  Created :: nat
  ItemEnclosure :: Enclosure

record Feed =
  FeedTitle :: string
  FeedLink :: string
  Items :: "Item list"

text \<open>
  What the program does not decide is a parameter, collected in \<open>env\<close>. The answer of
  an outside call may depend on the whole world at the moment of the call.
  \<^item> \<open>strings_ToLower\<close>, \<open>http_NewRequest\<close> (the error, if any, for a URL),
    \<open>xml_Unmarshal\<close>, \<open>time_Parse\<close> (RFC 3339; a time is a number),
    \<open>url_JoinPath\<close> and \<open>WriteAtom\<close> are library functions;
  \<^item> \<open>client_Do\<close> is the HTTP exchange: a transport error or a response, whose
    \<open>Body\<close> is what \<open>ioutil.ReadAll\<close> will give, an error or the bytes;
  \<^item> \<open>stat_fault\<close> and \<open>rename_fault\<close> are the failures of \<open>os.Stat\<close> and
    \<open>os.Rename\<close> other than a missing file;
  \<^item> \<open>probe_run\<close>, \<open>download_run\<close> and \<open>convert_run\<close> are the runs of the
    downloader (as a probe and as a downloader) and of the converter: the combined
    output and the error of \<open>CombinedOutput\<close>. The last two also give the file
    the tool leaves at its output path (the video id, \<open>tmp.opus\<close>), if any.
\<close>

record env =
  strings_ToLower :: "string \<Rightarrow> string"
  http_NewRequest :: "string \<Rightarrow> string option"
  client_Do :: "world \<Rightarrow> string \<Rightarrow> string + Response"
  xml_Unmarshal :: "string \<Rightarrow> string + YtEntry list"
  stat_fault :: "world \<Rightarrow> string \<Rightarrow> string option"
  rename_fault :: "world \<Rightarrow> string \<Rightarrow> string \<Rightarrow> string option"
  probe_run :: "world \<Rightarrow> string \<Rightarrow> string \<times> string option"
  download_run :: "world \<Rightarrow> string \<Rightarrow> (string \<times> string option) \<times> string option"
  convert_run :: "world \<Rightarrow> string \<Rightarrow> string \<Rightarrow> (string \<times> string option) \<times> string option"
  time_Parse :: "string \<Rightarrow> string + nat"
  url_JoinPath :: "string \<Rightarrow> string list \<Rightarrow> string"
  WriteAtom :: "Feed \<Rightarrow> string + string"

definition emit :: "event \<Rightarrow> world \<Rightarrow> world" where
  "emit ev w = w\<lparr>trace := trace w @ [ev]\<rparr>"

definition logPrint :: "string \<Rightarrow> world \<Rightarrow> world" where
  "logPrint msg w = emit (Log msg) w"

text \<open>\<open>os.Stat\<close> gives the size of the file, or an error.\<close>

definition os_Stat :: "env \<Rightarrow> world \<Rightarrow> string \<Rightarrow> oserror + nat" where
  "os_Stat env w name =
     (case stat_fault env w name of
        Some e \<Rightarrow> Inl (ErrOther e)
      | None \<Rightarrow>
          (case files w name of
             None \<Rightarrow> Inl ErrNotExist
           | Some content \<Rightarrow> Inr (length content)))"

text \<open>\<open>os.Remove\<close>; the code never looks at its error.\<close>

definition os_Remove :: "string \<Rightarrow> world \<Rightarrow> world" where
  "os_Remove name w = emit (Remove name) (w\<lparr>files := (files w)(name := None)\<rparr>)"

definition os_Rename :: "env \<Rightarrow> world \<Rightarrow> string \<Rightarrow> string \<Rightarrow> oserror + world" where
  "os_Rename env w oldpath newpath =
     (case files w oldpath of
        None \<Rightarrow> Inl ErrNotExist
      | Some content \<Rightarrow>
          (case rename_fault env w oldpath newpath of
             Some e \<Rightarrow> Inl (ErrOther e)
           | None \<Rightarrow>
               Inr (emit (Rename oldpath newpath)
                     (w\<lparr>files := (files w)(oldpath := None, newpath \<mapsto> content)\<rparr>))))"

fun errorText :: "oserror \<Rightarrow> string" where
  "errorText ErrNotExist = ''no such file or directory''"
| "errorText (ErrOther e) = e"

section \<open>readFeed and parseFeed\<close>

text \<open>
  \<open>readFeed\<close> returns \<open>(data, err)\<close>. In the branch for status 200 the source
  declares a second \<open>err\<close> with \<open>body, err := ioutil.ReadAll(res.Body)\<close>; when the read
  fails, control leaves that block and the final \<open>return nil, err\<close> returns the outer
  \<open>err\<close>, which is nil there.
\<close>

definition readFeed :: "env \<Rightarrow> world \<Rightarrow> string \<Rightarrow> (string option \<times> string option) result" where
  "readFeed env w channelId =
     (let path = ''https://www.youtube.com/feeds/videos.xml?channel_id='' @ channelId
      in case http_NewRequest env path of
           Some e \<Rightarrow> Exit (logPrint e w)
         | None \<Rightarrow>
             (let w1 = emit (HttpGet path) w
              in case client_Do env w path of
                   Inl err \<Rightarrow> Return (None, Some err) w1
                 | Inr res \<Rightarrow>
                     if StatusCode res \<noteq> 200
                     then Return (None, Some (''server response status '' @ Status res)) w1
                     else (case Body res of
                             Inr body \<Rightarrow> Return (Some body, None) w1
                           | Inl err2 \<Rightarrow> Return (None, None) w1)))"

text \<open>\<open>parseFeed\<close>; a nil \<open>data\<close> is the empty input of \<open>xml.Unmarshal\<close>.\<close>

definition parseFeed :: "env \<Rightarrow> world \<Rightarrow> string option \<Rightarrow> string list option \<Rightarrow> YtEntry list result" where
  "parseFeed env w data keywords =
     (case xml_Unmarshal env (case data of None \<Rightarrow> [] | Some b \<Rightarrow> b) of
        Inl err \<Rightarrow> Exit (logPrint err w)
      | Inr entries \<Rightarrow> Return (filterEntries (strings_ToLower env) entries keywords) w)"

section \<open>The external tools\<close>

definition isVideoReady :: "env \<Rightarrow> world \<Rightarrow> string \<Rightarrow> bool \<times> world" where
  "isVideoReady env w videoId =
     (let (out, err) = probe_run env w videoId;
          w1 = emit (Probe videoId) w
      in case err of
           Some e \<Rightarrow> (False, w1)
         | None \<Rightarrow> (strings_Contains out ''not_live'' \<or> strings_Contains out ''was_live'', w1))"

definition downloadAudio :: "env \<Rightarrow> world \<Rightarrow> string \<Rightarrow> (string \<times> string option) \<times> world" where
  "downloadAudio env w videoId =
     (let outFile = videoId;
          ((out, err), written) = download_run env w videoId;
          w1 = emit (Download videoId) (w\<lparr>files := (files w)(outFile := written)\<rparr>)
      in case err of
           Some e \<Rightarrow> ((outFile, err), logPrint out (os_Remove outFile w1))
         | None \<Rightarrow> ((outFile, err), w1))"

definition recodeAudio :: "env \<Rightarrow> world \<Rightarrow> string \<Rightarrow> string \<Rightarrow> unit result" where
  "recodeAudio env w fileIn fileOut =
     (let fileTmp = ''tmp.opus'';
          ((out, err), written) = convert_run env w fileIn fileTmp;
          w1 = emit (Convert fileIn fileTmp) (w\<lparr>files := (files w)(fileTmp := written)\<rparr>)
      in case err of
           Some e \<Rightarrow> Exit (logPrint e (logPrint out w1))
         | None \<Rightarrow>
             (case os_Rename env w1 fileTmp fileOut of
                Inl e \<Rightarrow> Exit (logPrint (errorText e) w1)
              | Inr w2 \<Rightarrow> Return () w2))"

section \<open>doUpdate: one sweep\<close>

text \<open>The body of the loop of \<open>doUpdate\<close> over the entries of one feed.\<close>

definition updateEntry :: "env \<Rightarrow> ConfFeed \<Rightarrow> YtEntry \<Rightarrow> world \<Rightarrow> unit result" where
  "updateEntry env feed entry w =
     (let fileDst = getAudioFileName (ChannelId feed) (VideoId entry)
      in case os_Stat env w fileDst of
           Inr info \<Rightarrow> Return () w
         | Inl err \<Rightarrow>
             (let desc = Name feed @ '' '' @ VideoId entry;
                  w1 = logPrint (''found new video '' @ desc) w;
                  (ready, w2) = isVideoReady env w1 (VideoId entry)
              in if \<not> ready then Return () (logPrint (desc @ '' not ready, skipped'') w2)
                 else
                   (let w3 = logPrint (''downloading '' @ desc) w2;
                        ((fileDown, err), w4) = downloadAudio env w3 (VideoId entry)
                    in case err of
                         Some e \<Rightarrow> Return () (logPrint (desc @ '' download error, skipped'') w4)
                       | None \<Rightarrow>
                           (let w5 = logPrint (desc @ '' downloaded'') w4;
                                w6 = logPrint (''recoding '' @ desc) w5
                            in case recodeAudio env w6 fileDown fileDst of
                                 Return u w7 \<Rightarrow>
                                   Return () (logPrint (desc @ '' recoded'') (os_Remove fileDown w7))
                               | Exit wx \<Rightarrow> Exit wx
                               | Panicked wx \<Rightarrow> Panicked wx))))"

fun updateEntries :: "env \<Rightarrow> ConfFeed \<Rightarrow> YtEntry list \<Rightarrow> world \<Rightarrow> unit result" where
  "updateEntries env feed [] w = Return () w"
| "updateEntries env feed (entry # es) w =
     (case updateEntry env feed entry w of
        Return u w' \<Rightarrow> updateEntries env feed es w'
      | Exit wx \<Rightarrow> Exit wx
      | Panicked wx \<Rightarrow> Panicked wx)"

text \<open>The loop of \<open>doUpdate\<close> over the configured feeds.\<close>

fun updateFeedList :: "env \<Rightarrow> ConfFeed list \<Rightarrow> world \<Rightarrow> unit result" where
  "updateFeedList env [] w = Return () w"
| "updateFeedList env (feed # fs) w =
     (case readFeed env w (ChannelId feed) of
        Exit wx \<Rightarrow> Exit wx
      | Panicked wx \<Rightarrow> Panicked wx
      | Return (data, err) w1 \<Rightarrow>
          (case err of
             Some e \<Rightarrow> updateFeedList env fs (logPrint e w1)
           | None \<Rightarrow>
               (case parseFeed env w1 data (Keywords feed) of
                  Exit wx \<Rightarrow> Exit wx
                | Panicked wx \<Rightarrow> Panicked wx
                | Return ytfeed w2 \<Rightarrow>
                    (case updateEntries env feed ytfeed w2 of
                       Exit wx \<Rightarrow> Exit wx
                     | Panicked wx \<Rightarrow> Panicked wx
                     | Return u w3 \<Rightarrow> updateFeedList env fs w3))))"

definition doUpdate :: "env \<Rightarrow> Conf \<Rightarrow> world \<Rightarrow> unit result" where
  "doUpdate env conf w = updateFeedList env (Feeds conf) w"

section \<open>feedGetHandler\<close>





section \<open>Observing a run\<close>

text \<open>The world in which a result leaves the program.\<close>

fun worldOf :: "'a result \<Rightarrow> world" where
  "worldOf (Return x w) = w"
| "worldOf (Exit w) = w"
| "worldOf (Panicked w) = w"

text \<open>
  The events of the ingestion pipeline proper: probes, downloads, transcodes and the
  file operations; feed requests and log lines are left out.
\<close>

fun isPipelineEvent :: "event \<Rightarrow> bool" where
  "isPipelineEvent (Log msg) = False"
| "isPipelineEvent (HttpGet path) = False"
| "isPipelineEvent ev = True"

definition pipelineEvents :: "event list \<Rightarrow> event list" where
  "pipelineEvents tr = filter isPipelineEvent tr"

text \<open>
  The entry steps a sweep performs, in order: the feed, the entry and the world at the
  moment the loop body of \<open>doUpdate\<close> starts on that entry. The list follows the run:
  it ends where the sweep ends, and it holds only the entries the keyword filter
  retained of the documents the sweep retrieved.
\<close>

fun entrySteps :: "env \<Rightarrow> ConfFeed \<Rightarrow> YtEntry list \<Rightarrow> world \<Rightarrow> (ConfFeed \<times> YtEntry \<times> world) list" where
  "entrySteps env feed [] w = []"
| "entrySteps env feed (entry # es) w =
     (feed, entry, w) #
     (case updateEntry env feed entry w of
        Return u w' \<Rightarrow> entrySteps env feed es w'
      | Exit wx \<Rightarrow> []
      | Panicked wx \<Rightarrow> [])"

fun sweepSteps :: "env \<Rightarrow> ConfFeed list \<Rightarrow> world \<Rightarrow> (ConfFeed \<times> YtEntry \<times> world) list" where
  "sweepSteps env [] w = []"
| "sweepSteps env (feed # fs) w =
     (case readFeed env w (ChannelId feed) of
        Exit wx \<Rightarrow> []
      | Panicked wx \<Rightarrow> []
      | Return (data, err) w1 \<Rightarrow>
          (case err of
             Some e \<Rightarrow> sweepSteps env fs (logPrint e w1)
           | None \<Rightarrow>
               (case parseFeed env w1 data (Keywords feed) of
                  Exit wx \<Rightarrow> []
                | Panicked wx \<Rightarrow> []
                | Return ytfeed w2 \<Rightarrow>
                    entrySteps env feed ytfeed w2 @
                    (case updateEntries env feed ytfeed w2 of
                       Exit wx \<Rightarrow> []
                     | Panicked wx \<Rightarrow> []
                     | Return u w3 \<Rightarrow> sweepSteps env fs w3))))"

text \<open>
  One status in a probe output: of the three status words the output holds at most
  one. The probe asks for the \<open>live_status\<close> of one video.
\<close>

definition singleStatus :: "string \<Rightarrow> bool" where
  "singleStatus out =
     (length (filter (strings_Contains out) [''is_live'', ''not_live'', ''was_live'']) \<le> 1)"

section \<open>The feed of a request, after the specification\<close>








section \<open>A concrete environment\<close>

text \<open>
  A small world for running the model: a feed document with three entries, no file
  system faults, a probe that reports \<open>not_live\<close>, tools that succeed and write a file.
\<close>

definition entryA :: YtEntry where
  "entryA = \<lparr>Title = ''A'', VideoId = ''vidA'', Published = ''2023-01-01T00:00:00Z'',
              Media = Some \<lparr>Description = ''first''\<rparr>\<rparr>"

definition entryB :: YtEntry where
  "entryB = \<lparr>Title = ''B'', VideoId = ''vidB'', Published = ''2023-01-02T00:00:00Z'',
              Media = Some \<lparr>Description = ''second''\<rparr>\<rparr>"

definition entryNews :: YtEntry where
  "entryNews = \<lparr>Title = ''Daily News Update'', VideoId = ''vidN'',
                 Published = ''2023-01-03T00:00:00Z'', Media = Some \<lparr>Description = ''third''\<rparr>\<rparr>"

definition sampleEnv :: env where
  "sampleEnv =
     \<lparr>strings_ToLower = asciiLower,
      http_NewRequest = (\<lambda>path. None),
      client_Do = (\<lambda>w path. Inr \<lparr>StatusCode = 200, Status = ''200 OK'', Body = Inr ''<feed/>''\<rparr>),
      xml_Unmarshal = (\<lambda>data. if data = ''<feed/>'' then Inr [entryA, entryB, entryNews]
                               else Inl ''EOF''),
      stat_fault = (\<lambda>w name. None),
      rename_fault = (\<lambda>w old new. None),
      probe_run = (\<lambda>w videoId. (''not_live'', None)),
      download_run = (\<lambda>w videoId. (([], None), Some ''raw'')),
      convert_run = (\<lambda>w fileIn fileTmp. (([], None), Some ''opus'')),
      time_Parse = (\<lambda>s. if length s = 20 then Inr 0 else Inl ''cannot parse''),
      url_JoinPath = (\<lambda>base elems. base @ joinSep elems),
      WriteAtom = (\<lambda>feed. Inr (FeedTitle feed))\<rparr>"

definition emptyWorld :: world where
  "emptyWorld = \<lparr>files = Map.empty, trace = []\<rparr>"

text \<open>
  Two configured feeds, and a world in which the artifacts of all three entries are
  committed for both channels.
\<close>

definition committedWorld :: world where
  "committedWorld =
     \<lparr>files = map_of
        [(''audio/chan1/vidA.opus'', ''opus''), (''audio/chan1/vidB.opus'', ''opus''),
         (''audio/chan1/vidN.opus'', ''opus''), (''audio/chan2/vidA.opus'', ''opus''),
         (''audio/chan2/vidB.opus'', ''opus''), (''audio/chan2/vidN.opus'', ''opus'')],
      trace = []\<rparr>"

definition feed1 :: ConfFeed where
  "feed1 = \<lparr>Name = ''one'', ChannelId = ''chan1'', Keywords = None\<rparr>"

definition feed2 :: ConfFeed where
  "feed2 = \<lparr>Name = ''two'', ChannelId = ''chan2'', Keywords = None\<rparr>"

definition conf1 :: Conf where
  "conf1 = \<lparr>Feeds = [feed1, feed2], ServerAddress = ''127.0.0.1:8080''\<rparr>"

text \<open>The server answers 200, and reading the body fails.\<close>

definition brokenBodyEnv :: env where
  "brokenBodyEnv =
     sampleEnv\<lparr>client_Do := (\<lambda>w path.
        Inr \<lparr>StatusCode = 200, Status = ''200 OK'', Body = Inl ''unexpected EOF''\<rparr>)\<rparr>"

text \<open>The probe prints one status: that of a running broadcast, or that of a finished one.\<close>

definition liveEnv :: env where
  "liveEnv = sampleEnv\<lparr>probe_run := (\<lambda>w videoId. (''is_live'' @ [CHR 0x0A], None))\<rparr>"

definition wasLiveEnv :: env where
  "wasLiveEnv = sampleEnv\<lparr>probe_run := (\<lambda>w videoId. (''was_live'' @ [CHR 0x0A], None))\<rparr>"

text \<open>Every \<open>os.Stat\<close> fails with an error that is not "not found".\<close>

definition faultEnv :: env where
  "faultEnv = sampleEnv\<lparr>stat_fault := (\<lambda>w name. Some ''permission denied'')\<rparr>"

text \<open>The server sends a document that does not parse.\<close>

definition malformedEnv :: env where
  "malformedEnv =
     sampleEnv\<lparr>client_Do := (\<lambda>w path.
        Inr \<lparr>StatusCode = 200, Status = ''200 OK'', Body = Inr ''<feed''\<rparr>)\<rparr>"

text \<open>
  A feed entry whose video id is a path, the path of a committed artifact, and a
  downloader that fails without touching any file.
\<close>

definition evilEntry :: YtEntry where
  "evilEntry = \<lparr>Title = ''E'', VideoId = ''audio/chan1/vidA.opus'',
                 Published = ''2023-01-04T00:00:00Z'', Media = None\<rparr>"

definition evilEnv :: env where
  "evilEnv =
     sampleEnv\<lparr>xml_Unmarshal := (\<lambda>data. Inr [evilEntry]),
               download_run := (\<lambda>w videoId. ((''ERROR'', Some ''exit status 1''), files w videoId))\<rparr>"

text \<open>A world with one committed artifact.\<close>

definition oneArtifactWorld :: world where
  "oneArtifactWorld = \<lparr>files = [''audio/chan1/vidA.opus'' \<mapsto> ''old''], trace = []\<rparr>"





section \<open>Properties of the keyword filter\<close>

lemma strings_Contains_iff: "strings_Contains s substr = (\<exists>pre suf. s = pre @ substr @ suf)"
proof (induction s)
  case Nil
  then show ?case by auto
next
  case (Cons c s)
  show ?case
  proof
    assume "strings_Contains (c # s) substr"
    then consider "prefix substr (c # s)" | "strings_Contains s substr" by auto
    then show "\<exists>pre suf. c # s = pre @ substr @ suf"
    proof cases
      case 1
      then obtain suf where "c # s = substr @ suf" by (auto simp: prefix_def)
      then have "c # s = [] @ substr @ suf" by simp
      then show ?thesis by blast
    next
      case 2
      with Cons.IH obtain pre suf where "s = pre @ substr @ suf" by blast
      then have "c # s = (c # pre) @ substr @ suf" by simp
      then show ?thesis by blast
    qed
  next
    assume "\<exists>pre suf. c # s = pre @ substr @ suf"
    then obtain pre suf where e: "c # s = pre @ substr @ suf" by blast
    show "strings_Contains (c # s) substr"
    proof (cases pre)
      case Nil
      with e have "prefix substr (c # s)" by (simp add: prefix_def)
      then show ?thesis by simp
    next
      case (Cons a pre')
      with e have "s = pre' @ substr @ suf" by simp
      with Cons.IH have "strings_Contains s substr" by blast
      then show ?thesis by simp
    qed
  qed
qed

lemma keywordLoop_eq:
  "keywordLoop lower entry ks f =
     (if \<exists>k \<in> set ks. strings_Contains (lower (Title entry)) (lower k) then f @ [entry] else f)"
  by (induction ks) (auto simp: Let_def)

lemma entryLoop_eq:
  "entryLoop lower es ks f =
     f @ filter (\<lambda>e. \<exists>k \<in> set ks. strings_Contains (lower (Title e)) (lower k)) es"
  by (induction es arbitrary: f) (simp_all add: keywordLoop_eq)

lemma filterEntries_Some:
  "filterEntries lower es (Some ks) = filter (\<lambda>e. \<exists>k \<in> set ks. ciSubstring lower (Title e) k) es"
  by (simp add: filterEntries_def entryLoop_eq ciSubstring_def strings_Contains_iff)

lemma count_list_filter:
  "count_list (filter P xs) x = (if P x then count_list xs x else 0)"
  by (induction xs) auto

subsection \<open>Keyword filtering (C1)\<close>

text \<open>
  C1, as the specification states it, fails on the code: \<open>parseFeed\<close> returns every
  entry only for the nil keyword list. For the empty, non-nil list of
  \<open>"keywords": []\<close> both loops run and no entry is appended: a feed with the entries
  titled A and B (and a third) comes back empty.
\<close>

theorem parseFeed_empty_keywords_counterexample:
  "parseFeed sampleEnv emptyWorld (Some ''<feed/>'') (Some []) = Return [] emptyWorld
   \<and> xml_Unmarshal sampleEnv ''<feed/>'' = Inr [entryA, entryB, entryNews]"
  by (simp add: parseFeed_def sampleEnv_def filterEntries_def)

text \<open>
  C1 as amended: when the document parses, \<open>parseFeed\<close> returns all entries unmodified
  for the absent (nil) keyword list, and for a keyword list that is present, empty or
  not, exactly the entries whose title contains at least one keyword as a
  case-insensitive substring, in feed order; for the empty list that is no entry.
\<close>

theorem parseFeed_keyword_filter:
  assumes "xml_Unmarshal env (case data of None \<Rightarrow> [] | Some b \<Rightarrow> b) = Inr entries"
  shows "parseFeed env w data None = Return entries w
       \<and> parseFeed env w data (Some ks) =
           Return (filter (\<lambda>e. \<exists>k \<in> set ks. ciSubstring (strings_ToLower env) (Title e) k) entries) w
       \<and> parseFeed env w data (Some []) = Return [] w"
proof -
  have "parseFeed env w data None = Return entries w"
    using assms by (simp add: parseFeed_def filterEntries_def)
  moreover have "parseFeed env w data (Some ks) =
      Return (filter (\<lambda>e. \<exists>k \<in> set ks. ciSubstring (strings_ToLower env) (Title e) k) entries) w"
    using assms by (simp add: parseFeed_def filterEntries_Some)
  moreover have "parseFeed env w data (Some []) = Return [] w"
    using assms by (simp add: parseFeed_def filterEntries_def entryLoop_eq)
  ultimately show ?thesis by simp
qed

theorem parseFeed_keyword_filter_witness:
  "xml_Unmarshal sampleEnv (case Some ''<feed/>'' of None \<Rightarrow> [] | Some b \<Rightarrow> b)
     = Inr [entryA, entryB, entryNews]
   \<and> parseFeed sampleEnv emptyWorld (Some ''<feed/>'') None
     = Return [entryA, entryB, entryNews] emptyWorld
   \<and> parseFeed sampleEnv emptyWorld (Some ''<feed/>'') (Some [''news''])
     = Return [entryNews] emptyWorld"
proof -
  have h: "xml_Unmarshal sampleEnv (case Some ''<feed/>'' of None \<Rightarrow> [] | Some b \<Rightarrow> b)
             = Inr [entryA, entryB, entryNews]"
    by (simp add: sampleEnv_def)
  have l: "strings_ToLower sampleEnv = asciiLower" by (simp add: sampleEnv_def)
  have a: "\<not> strings_Contains (asciiLower (Title entryA)) (asciiLower ''news'')"
    unfolding entryA_def by code_simp
  have b: "\<not> strings_Contains (asciiLower (Title entryB)) (asciiLower ''news'')"
    unfolding entryB_def by code_simp
  have n: "strings_Contains (asciiLower (Title entryNews)) (asciiLower ''news'')"
    unfolding entryNews_def by code_simp
  have c: "\<And>e. ciSubstring asciiLower (Title e) ''news''
             = strings_Contains (asciiLower (Title e)) (asciiLower ''news'')"
    by (simp add: ciSubstring_def strings_Contains_iff)
  show ?thesis
    using h parseFeed_keyword_filter [OF h, of emptyWorld "[''news'']"]
    by (simp add: l c a b n)
qed

subsection \<open>Filtering keeps order and multiplicity (C9)\<close>

text \<open>
  C9: for a parsed feed and a non-nil keyword list, the entries \<open>parseFeed\<close> returns are
  a subsequence of the parsed entries, in their order: they are the entries at the
  positions whose title matches, each position taken once, so that an entry occurs in
  the output as often as in the input when it matches (however many keywords it
  matches) and not at all otherwise.
\<close>

theorem parseFeed_subsequence:
  assumes "xml_Unmarshal env (case data of None \<Rightarrow> [] | Some b \<Rightarrow> b) = Inr entries"
  shows "\<exists>out. parseFeed env w data (Some ks) = Return out w
           \<and> subseq out entries
           \<and> out = nths entries {i. i < length entries \<and>
                      (\<exists>k \<in> set ks. ciSubstring (strings_ToLower env) (Title (entries ! i)) k)}
           \<and> (\<forall>e. count_list out e =
                  (if \<exists>k \<in> set ks. ciSubstring (strings_ToLower env) (Title e) k
                   then count_list entries e else 0))
           \<and> (distinct entries \<longrightarrow> distinct out)"
proof -
  let ?P = "\<lambda>e. \<exists>k \<in> set ks. ciSubstring (strings_ToLower env) (Title e) k"
  have "parseFeed env w data (Some ks) = Return (filter ?P entries) w"
    using assms by (simp add: parseFeed_def filterEntries_Some)
  moreover have "subseq (filter ?P entries) entries" by simp
  moreover have "filter ?P entries = nths entries {i. i < length entries \<and> ?P (entries ! i)}"
    by (rule filter_eq_nths)
  moreover have "\<forall>e. count_list (filter ?P entries) e = (if ?P e then count_list entries e else 0)"
    by (simp add: count_list_filter)
  moreover have "distinct entries \<longrightarrow> distinct (filter ?P entries)" by simp
  ultimately show ?thesis by simp
qed

theorem parseFeed_subsequence_witness:
  "xml_Unmarshal sampleEnv (case Some ''<feed/>'' of None \<Rightarrow> [] | Some b \<Rightarrow> b)
     = Inr [entryA, entryB, entryNews]
   \<and> (\<exists>out. parseFeed sampleEnv emptyWorld (Some ''<feed/>'') (Some [''news'', ''daily'']) = Return out emptyWorld
         \<and> subseq out [entryA, entryB, entryNews]
         \<and> count_list out entryNews = 1)"
proof -
  have h: "xml_Unmarshal sampleEnv (case Some ''<feed/>'' of None \<Rightarrow> [] | Some b \<Rightarrow> b)
             = Inr [entryA, entryB, entryNews]"
    by (simp add: sampleEnv_def)
  have l: "strings_ToLower sampleEnv = asciiLower" by (simp add: sampleEnv_def)
  have n: "strings_Contains (asciiLower (Title entryNews)) (asciiLower ''news'')"
    unfolding entryNews_def by code_simp
  have c: "ciSubstring asciiLower (Title entryNews) ''news''"
    using n by (simp add: ciSubstring_def strings_Contains_iff)
  have d: "entryA \<noteq> entryNews" "entryB \<noteq> entryNews"
    by (simp_all add: entryA_def entryB_def entryNews_def)
  from parseFeed_subsequence [OF h, of emptyWorld "[''news'', ''daily'']"]
  obtain out where o: "parseFeed sampleEnv emptyWorld (Some ''<feed/>'') (Some [''news'', ''daily'']) = Return out emptyWorld"
    "subseq out [entryA, entryB, entryNews]"
    "\<forall>e. count_list out e =
        (if \<exists>k \<in> set [''news'', ''daily'']. ciSubstring (strings_ToLower sampleEnv) (Title e) k
         then count_list [entryA, entryB, entryNews] e else 0)"
    by blast
  from o(3) have "count_list out entryNews = 1"
    using c d by (simp add: l)
  with o(1,2) h show ?thesis by blast
qed

subsection \<open>Canonical path (C3)\<close>

lemma splitSep_no_sep: "CHR ''/'' \<notin> set s \<Longrightarrow> splitSep s = [s]"
  by (induction s) auto

lemma splitSep_append: "CHR ''/'' \<notin> set a \<Longrightarrow> splitSep (a @ CHR ''/'' # b) = a # splitSep b"
  by (induction a) auto

lemma opus_not_dots:
  "v @ ''.opus'' \<noteq> []" "v @ ''.opus'' \<noteq> ''.''" "v @ ''.opus'' \<noteq> ''..''"
proof -
  have "length (v @ ''.opus'') \<ge> 5" by simp
  then show "v @ ''.opus'' \<noteq> []" "v @ ''.opus'' \<noteq> ''.''" "v @ ''.opus'' \<noteq> ''..''"
    by (auto simp del: length_append)
qed

lemma clean_elements:
  "foldl (cleanStep False) [] [''audio'', c, v @ ''.opus''] =
     (if c = [] \<or> c = ''.'' then [v @ ''.opus'', ''audio'']
      else if c = ''..'' then [v @ ''.opus'']
      else [v @ ''.opus'', c, ''audio''])"
  using opus_not_dots [of v] by (simp add: cleanStep_def)

lemma getAudioFileName_plain:
  assumes c: "CHR ''/'' \<notin> set c" and v: "CHR ''/'' \<notin> set v"
  shows "getAudioFileName c v =
     (if c = [] \<or> c = ''.'' then ''audio/'' @ v @ ''.opus''
      else if c = ''..'' then v @ ''.opus''
      else ''audio/'' @ c @ ''/'' @ v @ ''.opus'')"
proof -
  define p where "p = joinSep [''audio'', c, v @ ''.opus'']"
  have vo: "CHR ''/'' \<notin> set (v @ ''.opus'')" using v by simp
  have p: "p = ''audio'' @ CHR ''/'' # (c @ CHR ''/'' # (v @ ''.opus''))"
    by (simp add: p_def)
  have au: "CHR ''/'' \<notin> set ''audio''" by simp
  have sp: "splitSep p = [''audio'', c, v @ ''.opus'']"
    unfolding p by (simp only: splitSep_append [OF au] splitSep_append [OF c] splitSep_no_sep [OF vo])
  have ne: "p \<noteq> []" and hd: "hd p \<noteq> CHR ''/''" by (simp_all add: p)
  have "filepath_Clean p =
     (let s = joinSep (rev (foldl (cleanStep False) [] [''audio'', c, v @ ''.opus'']))
      in if s = [] then ''.'' else s)"
    using ne hd by (simp add: filepath_Clean_def sp Let_def)
  also have "\<dots> = (if c = [] \<or> c = ''.'' then ''audio/'' @ v @ ''.opus''
      else if c = ''..'' then v @ ''.opus''
      else ''audio/'' @ c @ ''/'' @ v @ ''.opus'')"
    using opus_not_dots [of v] by (simp only: clean_elements) (simp add: Let_def)
  finally have "filepath_Clean p = (if c = [] \<or> c = ''.'' then ''audio/'' @ v @ ''.opus''
      else if c = ''..'' then v @ ''.opus''
      else ''audio/'' @ c @ ''/'' @ v @ ''.opus'')" .
  moreover have "getAudioFileName c v = filepath_Clean p"
    by (simp add: getAudioFileName_def p_def)
  ultimately show ?thesis by simp
qed

lemma sep_split_unique:
  assumes "CHR ''/'' \<notin> set a" "CHR ''/'' \<notin> set b" "CHR ''/'' \<notin> set x" "CHR ''/'' \<notin> set y"
    and "a @ CHR ''/'' # x = b @ CHR ''/'' # y"
  shows "a = b \<and> x = y"
proof -
  have "splitSep (a @ CHR ''/'' # x) = splitSep (b @ CHR ''/'' # y)" using assms(5) by simp
  then show ?thesis using assms(1-4) by (simp add: splitSep_append splitSep_no_sep)
qed

text \<open>
  C3 as amended: the artifact path is a function of the channel id and the video id (the
  format is the constant \<open>opus\<close>), so equal inputs give equal paths; and for ids that
  contain no path separator, with a channel id that is neither empty nor \<open>.\<close>, two
  paths are equal only when both ids are.
\<close>

theorem getAudioFileName_injective:
  assumes "CHR ''/'' \<notin> set c1" "CHR ''/'' \<notin> set v1" "CHR ''/'' \<notin> set c2" "CHR ''/'' \<notin> set v2"
    and "c1 \<noteq> []" "c1 \<noteq> ''.''" "c2 \<noteq> []" "c2 \<noteq> ''.''"
  shows "(getAudioFileName c1 v1 = getAudioFileName c2 v2) = (c1 = c2 \<and> v1 = v2)"
proof
  assume eq: "getAudioFileName c1 v1 = getAudioFileName c2 v2"
  have vo1: "CHR ''/'' \<notin> set (v1 @ ''.opus'')" and vo2: "CHR ''/'' \<notin> set (v2 @ ''.opus'')"
    using assms by simp_all
  show "c1 = c2 \<and> v1 = v2"
  proof (cases "c1 = ''..''")
    case True
    show ?thesis
    proof (cases "c2 = ''..''")
      case c2: True
      with True eq assms show ?thesis by (simp add: getAudioFileName_plain)
    next
      case c2: False
      with True eq assms have "v1 @ ''.opus'' = ''audio/'' @ c2 @ ''/'' @ v2 @ ''.opus''"
        by (simp add: getAudioFileName_plain)
      then have "CHR ''/'' \<in> set (v1 @ ''.opus'')" by simp
      with vo1 show ?thesis by blast
    qed
  next
    case False
    show ?thesis
    proof (cases "c2 = ''..''")
      case c2: True
      with False eq assms have "v2 @ ''.opus'' = ''audio/'' @ c1 @ ''/'' @ v1 @ ''.opus''"
        by (simp add: getAudioFileName_plain)
      then have "CHR ''/'' \<in> set (v2 @ ''.opus'')" by simp
      with vo2 show ?thesis by blast
    next
      case c2: False
      with False eq assms have "c1 @ CHR ''/'' # (v1 @ ''.opus'') = c2 @ CHR ''/'' # (v2 @ ''.opus'')"
        by (simp add: getAudioFileName_plain)
      from sep_split_unique [OF assms(1) assms(3) vo1 vo2 this]
      show ?thesis by simp
    qed
  qed
next
  assume "c1 = c2 \<and> v1 = v2"
  then show "getAudioFileName c1 v1 = getAudioFileName c2 v2" by simp
qed

theorem getAudioFileName_injective_witness:
  "CHR ''/'' \<notin> set ''chan1'' \<and> CHR ''/'' \<notin> set ''vid1'' \<and> CHR ''/'' \<notin> set ''chan1'' \<and> CHR ''/'' \<notin> set ''vid2''
   \<and> ''chan1'' \<noteq> [] \<and> ''chan1'' \<noteq> ''.''
   \<and> getAudioFileName ''chan1'' ''vid1'' \<noteq> getAudioFileName ''chan1'' ''vid2''"
  using getAudioFileName_injective [of "''chan1''" "''vid1''" "''chan1''" "''vid2''"]
  by simp

text \<open>
  C3, as the specification states it, fails on the code: \<open>filepath.Join\<close> does not keep
  the boundary between its elements, so two distinct pairs of ids whose separators fall
  differently share one path.
\<close>

theorem getAudioFileName_collision_counterexample:
  "getAudioFileName ''a/b'' ''c'' = getAudioFileName ''a'' ''b/c''
   \<and> (''a/b'', ''c'') \<noteq> (''a'', ''b/c'')"
  by (simp add: getAudioFileName_def filepath_Clean_def cleanStep_def)

section \<open>Effects of the sweep\<close>

lemma isVideoReady_world: "snd (isVideoReady env w videoId) = emit (Probe videoId) w"
  by (cases "probe_run env w videoId") (auto simp: isVideoReady_def Let_def split: option.splits)

lemma downloadAudio_effect:
  "\<exists>rest. trace (snd (downloadAudio env w videoId)) = trace w @ Download videoId # rest
      \<and> (\<forall>a b. Rename a b \<notin> set rest)
      \<and> (\<forall>p. p \<noteq> videoId \<longrightarrow> files (snd (downloadAudio env w videoId)) p = files w p)
      \<and> fst (fst (downloadAudio env w videoId)) = videoId"
  by (auto simp: downloadAudio_def Let_def emit_def logPrint_def os_Remove_def
      split: option.splits prod.splits)

lemma recodeAudio_effect:
  "\<exists>rest. trace (worldOf (recodeAudio env w fileIn fileOut)) = trace w @ Convert fileIn ''tmp.opus'' # rest
      \<and> (\<forall>a b. Rename a b \<in> set rest \<longrightarrow> a = ''tmp.opus'' \<and> b = fileOut)
      \<and> (\<forall>p. p \<noteq> ''tmp.opus'' \<longrightarrow> p \<noteq> fileOut \<longrightarrow>
            files (worldOf (recodeAudio env w fileIn fileOut)) p = files w p)"
  by (auto simp: recodeAudio_def Let_def emit_def logPrint_def os_Rename_def
      split: option.splits prod.splits sum.splits)

lemma updateEntry_exists:
  "os_Stat env w (getAudioFileName (ChannelId feed) (VideoId entry)) = Inr info
   \<Longrightarrow> updateEntry env feed entry w = Return () w"
  by (simp add: updateEntry_def)

lemma updateEntry_absent:
  assumes st: "os_Stat env w (getAudioFileName (ChannelId feed) (VideoId entry)) = Inl err"
  shows "\<exists>rest. trace (worldOf (updateEntry env feed entry w)) =
            trace w @ [Log (''found new video '' @ Name feed @ '' '' @ VideoId entry), Probe (VideoId entry)] @ rest
      \<and> (if fst (isVideoReady env (logPrint (''found new video '' @ Name feed @ '' '' @ VideoId entry) w) (VideoId entry))
          then \<exists>rest'. rest = [Log (''downloading '' @ Name feed @ '' '' @ VideoId entry), Download (VideoId entry)] @ rest'
          else rest = [Log ((Name feed @ '' '' @ VideoId entry) @ '' not ready, skipped'')]
               \<and> updateEntry env feed entry w = Return () (worldOf (updateEntry env feed entry w)))
      \<and> (\<forall>a b. Rename a b \<in> set rest \<longrightarrow>
            a = ''tmp.opus'' \<and> b = getAudioFileName (ChannelId feed) (VideoId entry))
      \<and> (\<forall>p. p \<noteq> VideoId entry \<longrightarrow> p \<noteq> ''tmp.opus'' \<longrightarrow>
            p \<noteq> getAudioFileName (ChannelId feed) (VideoId entry) \<longrightarrow>
            files (worldOf (updateEntry env feed entry w)) p = files w p)"
proof -
  define desc where "desc = Name feed @ '' '' @ VideoId entry"
  define vid where "vid = VideoId entry"
  define dst where "dst = getAudioFileName (ChannelId feed) (VideoId entry)"
  define found where "found = ''found new video '' @ desc"
  define w1 where "w1 = logPrint found w"
  define w3 where "w3 = logPrint (''downloading '' @ desc) (emit (Probe vid) w1)"
  define U where "U = updateEntry env feed entry w"
  obtain ready w2 where r: "isVideoReady env w1 vid = (ready, w2)"
    by (cases "isVideoReady env w1 vid")
  from isVideoReady_world [of env w1 vid] r have w2: "w2 = emit (Probe vid) w1"
    by simp
  have t1: "trace w1 = trace w @ [Log found]" and f1: "files w1 = files w"
    by (simp_all add: w1_def logPrint_def emit_def)
  have main: "\<exists>rest. trace (worldOf U) = trace w @ [Log found, Probe vid] @ rest
      \<and> (if fst (isVideoReady env w1 vid)
          then \<exists>rest'. rest = [Log (''downloading '' @ desc), Download vid] @ rest'
          else rest = [Log (desc @ '' not ready, skipped'')] \<and> U = Return () (worldOf U))
      \<and> (\<forall>a b. Rename a b \<in> set rest \<longrightarrow> a = ''tmp.opus'' \<and> b = dst)
      \<and> (\<forall>p. p \<noteq> vid \<longrightarrow> p \<noteq> ''tmp.opus'' \<longrightarrow> p \<noteq> dst \<longrightarrow> files (worldOf U) p = files w p)"
  proof (cases ready)
    case False
    have u: "U = Return () (logPrint (desc @ '' not ready, skipped'') (emit (Probe vid) w1))"
      using st r False w2
      unfolding U_def updateEntry_def Let_def desc_def w1_def vid_def found_def by simp
    show ?thesis
      unfolding u using r False t1 f1 by (simp add: logPrint_def emit_def)
  next
    case True
    obtain fileDown derr w4 where d: "downloadAudio env w3 vid = ((fileDown, derr), w4)"
      by (cases "downloadAudio env w3 vid") auto
    from downloadAudio_effect [of env w3 vid] d
    obtain r4 where t4: "trace w4 = trace w3 @ Download vid # r4"
      and n4: "\<forall>a b. Rename a b \<notin> set r4"
      and f4: "\<forall>p. p \<noteq> vid \<longrightarrow> files w4 p = files w3 p"
      and fd: "fileDown = vid" by auto
    have t3: "trace w3 = trace w @ [Log found, Probe vid, Log (''downloading '' @ desc)]"
      and f3: "files w3 = files w"
      by (simp_all add: w3_def logPrint_def emit_def t1 f1)
    show ?thesis
    proof (cases derr)
      case (Some e)
      have u: "U = Return () (logPrint (desc @ '' download error, skipped'') w4)"
        using st r True w2 d Some
        unfolding U_def updateEntry_def Let_def desc_def w1_def w3_def vid_def found_def by simp
      show ?thesis
        unfolding u using r True t4 t3 n4 f4 f3 by (simp add: logPrint_def emit_def)
    next
      case None
      define w6 where "w6 = logPrint (''recoding '' @ desc) (logPrint (desc @ '' downloaded'') w4)"
      have t6: "trace w6 = trace w4 @ [Log (desc @ '' downloaded''), Log (''recoding '' @ desc)]"
        and f6: "files w6 = files w4"
        by (simp_all add: w6_def logPrint_def emit_def)
      from recodeAudio_effect [of env w6 fileDown dst]
      obtain r7 where t7: "trace (worldOf (recodeAudio env w6 fileDown dst)) = trace w6 @ Convert fileDown ''tmp.opus'' # r7"
        and n7: "\<forall>a b. Rename a b \<in> set r7 \<longrightarrow> a = ''tmp.opus'' \<and> b = dst"
        and f7: "\<forall>p. p \<noteq> ''tmp.opus'' \<longrightarrow> p \<noteq> dst \<longrightarrow> files (worldOf (recodeAudio env w6 fileDown dst)) p = files w6 p"
        by blast
      have u: "U =
         (case recodeAudio env w6 fileDown dst of
            Return u w7 \<Rightarrow> Return () (logPrint (desc @ '' recoded'') (os_Remove fileDown w7))
          | Exit wx \<Rightarrow> Exit wx
          | Panicked wx \<Rightarrow> Panicked wx)"
        using st r True w2 d None
        unfolding U_def updateEntry_def Let_def desc_def w1_def w3_def vid_def w6_def dst_def found_def
        by simp
      show ?thesis
        unfolding u using r True t7 t6 t4 t3 n4 n7 f7 f6 f4 f3 fd
        by (cases "recodeAudio env w6 fileDown dst")
           (simp_all add: logPrint_def emit_def os_Remove_def)
    qed
  qed
  then show ?thesis
    unfolding U_def w1_def found_def desc_def vid_def dst_def .
qed

lemma readFeed_effect:
  "files (worldOf (readFeed env w channelId)) = files w
   \<and> pipelineEvents (trace (worldOf (readFeed env w channelId))) = pipelineEvents (trace w)"
  by (auto simp: readFeed_def Let_def emit_def logPrint_def pipelineEvents_def
      split: option.splits sum.splits)

lemma filterEntries_subset: "set (filterEntries lower entries kws) \<subseteq> set entries"
  by (cases kws) (auto simp: filterEntries_def entryLoop_eq)

lemma parseFeed_cases:
  "(\<exists>err. xml_Unmarshal env (case data of None \<Rightarrow> [] | Some b \<Rightarrow> b) = Inl err
          \<and> parseFeed env w data keywords = Exit (logPrint err w))
   \<or> (\<exists>entries. xml_Unmarshal env (case data of None \<Rightarrow> [] | Some b \<Rightarrow> b) = Inr entries
          \<and> parseFeed env w data keywords = Return (filterEntries (strings_ToLower env) entries keywords) w)"
  by (cases "xml_Unmarshal env (case data of None \<Rightarrow> [] | Some b \<Rightarrow> b)") (simp_all add: parseFeed_def)

lemma logPrint_effect:
  "files (logPrint msg w) = files w"
  "pipelineEvents (trace (logPrint msg w)) = pipelineEvents (trace w)"
  by (simp_all add: logPrint_def emit_def pipelineEvents_def)

lemma recodeAudio_Return:
  "recodeAudio env w fileIn fileOut = Return u w7
   \<Longrightarrow> trace w7 = trace w @ [Convert fileIn ''tmp.opus'', Rename ''tmp.opus'' fileOut]"
  by (auto simp: recodeAudio_def Let_def emit_def logPrint_def os_Rename_def
      split: option.splits prod.splits sum.splits)

lemma downloadAudio_ok_trace:
  "snd (fst (downloadAudio env w videoId)) = None
   \<Longrightarrow> trace (snd (downloadAudio env w videoId)) = trace w @ [Download videoId]"
  by (auto simp: downloadAudio_def Let_def emit_def split: option.splits prod.splits)

lemma sample_paths:
  "getAudioFileName ''chan1'' ''vidA'' = ''audio/chan1/vidA.opus''"
  "getAudioFileName ''chan1'' ''vidB'' = ''audio/chan1/vidB.opus''"
  "getAudioFileName ''chan1'' ''vidN'' = ''audio/chan1/vidN.opus''"
  "getAudioFileName ''chan2'' ''vidA'' = ''audio/chan2/vidA.opus''"
  "getAudioFileName ''chan2'' ''vidB'' = ''audio/chan2/vidB.opus''"
  "getAudioFileName ''chan2'' ''vidN'' = ''audio/chan2/vidN.opus''"
  by (simp_all add: getAudioFileName_plain)

lemma entrySteps_all_exist:
  "\<forall>(f, e, w') \<in> set (entrySteps env feed es w).
      \<exists>info. os_Stat env w' (getAudioFileName (ChannelId f) (VideoId e)) = Inr info
   \<Longrightarrow> updateEntries env feed es w = Return () w"
proof (induction es)
  case Nil
  then show ?case by simp
next
  case (Cons entry es)
  from Cons.prems obtain info where
    "os_Stat env w (getAudioFileName (ChannelId feed) (VideoId entry)) = Inr info" by auto
  then have u: "updateEntry env feed entry w = Return () w" by (rule updateEntry_exists)
  with Cons.prems have "\<forall>(f, e, w') \<in> set (entrySteps env feed es w).
      \<exists>info. os_Stat env w' (getAudioFileName (ChannelId f) (VideoId e)) = Inr info" by simp
  from Cons.IH [OF this] u show ?case by simp
qed

lemma sweepSteps_idle:
  "\<forall>(f, e, w') \<in> set (sweepSteps env fs w).
      \<exists>info. os_Stat env w' (getAudioFileName (ChannelId f) (VideoId e)) = Inr info
   \<Longrightarrow> files (worldOf (updateFeedList env fs w)) = files w
       \<and> pipelineEvents (trace (worldOf (updateFeedList env fs w))) = pipelineEvents (trace w)"
proof (induction fs arbitrary: w)
  case Nil
  then show ?case by simp
next
  case (Cons feed fs)
  note rf = readFeed_effect [of env w "ChannelId feed"]
  show ?case
  proof (cases "readFeed env w (ChannelId feed)")
    case (Exit wx)
    with rf show ?thesis by simp
  next
    case (Panicked wx)
    with rf show ?thesis by simp
  next
    case (Return de w1)
    obtain data err where de: "de = (data, err)" by (cases de)
    from rf Return
    have f1: "files w1 = files w" and p1: "pipelineEvents (trace w1) = pipelineEvents (trace w)" by simp_all
    show ?thesis
    proof (cases err)
      case (Some e)
      from Cons.prems Return de Some
      have "\<forall>(f, e, w') \<in> set (sweepSteps env fs (logPrint e w1)).
         \<exists>info. os_Stat env w' (getAudioFileName (ChannelId f) (VideoId e)) = Inr info" by simp
      from Cons.IH [OF this] show ?thesis
        using Return de Some f1 p1 by (simp add: logPrint_effect)
    next
      case None
      from parseFeed_cases [of env data w1 "Keywords feed"]
      show ?thesis
      proof (elim disjE exE conjE)
        fix perr
        assume "parseFeed env w1 data (Keywords feed) = Exit (logPrint perr w1)"
        then show ?thesis using Return de None f1 p1 by (simp add: logPrint_effect)
      next
        fix entries
        assume pf: "parseFeed env w1 data (Keywords feed)
                     = Return (filterEntries (strings_ToLower env) entries (Keywords feed)) w1"
        define es where "es = filterEntries (strings_ToLower env) entries (Keywords feed)"
        from Cons.prems Return de None pf
        have all: "\<forall>(f, e, w') \<in> set (entrySteps env feed es w1 @
                    (case updateEntries env feed es w1 of
                       Exit wx \<Rightarrow> [] | Panicked wx \<Rightarrow> [] | Return u w3 \<Rightarrow> sweepSteps env fs w3)).
             \<exists>info. os_Stat env w' (getAudioFileName (ChannelId f) (VideoId e)) = Inr info"
          by (simp add: es_def)
        then have "\<forall>(f, e, w') \<in> set (entrySteps env feed es w1).
             \<exists>info. os_Stat env w' (getAudioFileName (ChannelId f) (VideoId e)) = Inr info"
          by auto
        then have ue: "updateEntries env feed es w1 = Return () w1" by (rule entrySteps_all_exist)
        with all have "\<forall>(f, e, w') \<in> set (sweepSteps env fs w1).
             \<exists>info. os_Stat env w' (getAudioFileName (ChannelId f) (VideoId e)) = Inr info"
          by auto
        from Cons.IH [OF this] show ?thesis
          using Return de None pf ue f1 p1 by (simp add: es_def)
      qed
    qed
  qed
qed

lemma entrySteps_committed:
  assumes H: "\<forall>e \<in> set es. \<forall>w'. files w' = F \<longrightarrow>
                (\<exists>info. os_Stat env w' (getAudioFileName (ChannelId feed) (VideoId e)) = Inr info)"
    and w: "files w = F"
  shows "(\<forall>(f, e, w') \<in> set (entrySteps env feed es w).
            \<exists>info. os_Stat env w' (getAudioFileName (ChannelId f) (VideoId e)) = Inr info)"
  using H
proof (induction es)
  case Nil
  then show ?case by simp
next
  case (Cons entry es)
  from Cons.prems w obtain info where
    s: "os_Stat env w (getAudioFileName (ChannelId feed) (VideoId entry)) = Inr info" by auto
  then have u: "updateEntry env feed entry w = Return () w" by (rule updateEntry_exists)
  from Cons.prems have "\<forall>e \<in> set es. \<forall>w'. files w' = F \<longrightarrow>
                (\<exists>info. os_Stat env w' (getAudioFileName (ChannelId feed) (VideoId e)) = Inr info)"
    by simp
  from Cons.IH [OF this] s u show ?case by simp
qed

lemma sweepSteps_committed:
  assumes H: "\<forall>feed \<in> set fs. \<forall>w' data entries e.
                files w' = F \<longrightarrow> xml_Unmarshal env data = Inr entries \<longrightarrow> e \<in> set entries \<longrightarrow>
                (\<exists>info. os_Stat env w' (getAudioFileName (ChannelId feed) (VideoId e)) = Inr info)"
    and w: "files w = F"
  shows "\<forall>(f, e, w') \<in> set (sweepSteps env fs w).
            \<exists>info. os_Stat env w' (getAudioFileName (ChannelId f) (VideoId e)) = Inr info"
  using H w
proof (induction fs arbitrary: w)
  case Nil
  then show ?case by simp
next
  case (Cons feed fs)
  have Hfs: "\<forall>feed \<in> set fs. \<forall>w' data entries e.
                files w' = F \<longrightarrow> xml_Unmarshal env data = Inr entries \<longrightarrow> e \<in> set entries \<longrightarrow>
                (\<exists>info. os_Stat env w' (getAudioFileName (ChannelId feed) (VideoId e)) = Inr info)"
    using Cons.prems(1) by simp
  have Hfeed: "\<And>w' data entries e.
                files w' = F \<Longrightarrow> xml_Unmarshal env data = Inr entries \<Longrightarrow> e \<in> set entries \<Longrightarrow>
                (\<exists>info. os_Stat env w' (getAudioFileName (ChannelId feed) (VideoId e)) = Inr info)"
    using Cons.prems(1) by simp
  note rf = readFeed_effect [of env w "ChannelId feed"]
  show ?case
  proof (cases "readFeed env w (ChannelId feed)")
    case (Exit wx)
    then show ?thesis by simp
  next
    case (Panicked wx)
    then show ?thesis by simp
  next
    case (Return de w1)
    obtain data err where de: "de = (data, err)" by (cases de)
    from rf Return Cons.prems(2) have f1: "files w1 = F" by simp
    show ?thesis
    proof (cases err)
      case (Some e)
      have "files (logPrint e w1) = F" using f1 by (simp add: logPrint_effect)
      from Cons.IH [OF Hfs this] show ?thesis using Return de Some by simp
    next
      case None
      from parseFeed_cases [of env data w1 "Keywords feed"]
      show ?thesis
      proof (elim disjE exE conjE)
        fix perr
        assume "parseFeed env w1 data (Keywords feed) = Exit (logPrint perr w1)"
        then show ?thesis using Return de None by simp
      next
        fix entries
        assume um: "xml_Unmarshal env (case data of None \<Rightarrow> [] | Some b \<Rightarrow> b) = Inr entries"
          and pf: "parseFeed env w1 data (Keywords feed)
                     = Return (filterEntries (strings_ToLower env) entries (Keywords feed)) w1"
        define es where "es = filterEntries (strings_ToLower env) entries (Keywords feed)"
        have He: "\<forall>e \<in> set es. \<forall>w'. files w' = F \<longrightarrow>
                (\<exists>info. os_Stat env w' (getAudioFileName (ChannelId feed) (VideoId e)) = Inr info)"
          using Hfeed [OF _ um] filterEntries_subset unfolding es_def by blast
        from entrySteps_committed [OF He f1]
        have st: "\<forall>(f, e, w') \<in> set (entrySteps env feed es w1).
            \<exists>info. os_Stat env w' (getAudioFileName (ChannelId f) (VideoId e)) = Inr info" .
        then have ue: "updateEntries env feed es w1 = Return () w1" by (rule entrySteps_all_exist)
        from Cons.IH [OF Hfs f1] st show ?thesis
          using Return de None pf ue by (auto simp: es_def)
      qed
    qed
  qed
qed

lemma entrySteps_members:
  "\<forall>(f, e, w') \<in> set (entrySteps env feed es w). f = feed \<and> e \<in> set es"
proof (induction es arbitrary: w)
  case Nil
  then show ?case by simp
next
  case (Cons entry es)
  show ?case
    by (cases "updateEntry env feed entry w") (use Cons.IH in \<open>auto, blast+\<close>)
qed

lemma sweepSteps_members:
  "\<forall>(f, e, w') \<in> set (sweepSteps env fs w).
      f \<in> set fs \<and> (\<exists>data entries. xml_Unmarshal env data = Inr entries \<and> e \<in> set entries)"
proof (induction fs arbitrary: w)
  case Nil
  then show ?case by simp
next
  case (Cons feed fs)
  show ?case
  proof (cases "readFeed env w (ChannelId feed)")
    case (Exit wx)
    then show ?thesis by simp
  next
    case (Panicked wx)
    then show ?thesis by simp
  next
    case (Return de w1)
    obtain data err where de: "de = (data, err)" by (cases de)
    show ?thesis
    proof (cases err)
      case (Some e)
      from Cons.IH [of "logPrint e w1"] show ?thesis using Return de Some by auto
    next
      case None
      from parseFeed_cases [of env data w1 "Keywords feed"]
      show ?thesis
      proof (elim disjE exE conjE)
        fix perr
        assume "parseFeed env w1 data (Keywords feed) = Exit (logPrint perr w1)"
        then show ?thesis using Return de None by simp
      next
        fix entries
        assume um: "xml_Unmarshal env (case data of None \<Rightarrow> [] | Some b \<Rightarrow> b) = Inr entries"
          and pf: "parseFeed env w1 data (Keywords feed)
                     = Return (filterEntries (strings_ToLower env) entries (Keywords feed)) w1"
        define es where "es = filterEntries (strings_ToLower env) entries (Keywords feed)"
        define R where "R = (case updateEntries env feed es w1 of
                       Exit wx \<Rightarrow> [] | Panicked wx \<Rightarrow> [] | Return u w3 \<Rightarrow> sweepSteps env fs w3)"
        have eq: "sweepSteps env (feed # fs) w = entrySteps env feed es w1 @ R"
          using Return de None pf by (simp add: es_def R_def)
        have a: "\<forall>(f, e, w') \<in> set (entrySteps env feed es w1).
            f \<in> set (feed # fs) \<and> (\<exists>data entries. xml_Unmarshal env data = Inr entries \<and> e \<in> set entries)"
          using entrySteps_members [of env feed es w1] um filterEntries_subset
          unfolding es_def by fastforce
        have b: "\<forall>(f, e, w') \<in> set R.
            f \<in> set (feed # fs) \<and> (\<exists>data entries. xml_Unmarshal env data = Inr entries \<and> e \<in> set entries)"
        proof (cases "updateEntries env feed es w1")
          case (Return u w3)
          then have "R = sweepSteps env fs w3" by (simp add: R_def)
          with Cons.IH [of w3] show ?thesis by auto
        next
          case (Exit wx)
          then show ?thesis by (simp add: R_def)
        next
          case (Panicked wx)
          then show ?thesis by (simp add: R_def)
        qed
        from a b show ?thesis unfolding eq by (simp add: ball_Un)
      qed
    qed
  qed
qed

subsection \<open>Idempotence of the sweep (C2)\<close>

text \<open>
  C2, as the specification states it, fails on the code: \<open>doUpdate\<close> skips an entry
  only when \<open>os.Stat\<close> returns no error. With the artifact present at its canonical
  path and the check failing for another reason, the entry is probed, downloaded and
  transcoded again, and the new file is renamed over the artifact.
\<close>

theorem committed_check_fails_counterexample:
  "files committedWorld ''audio/chan1/vidA.opus'' = Some ''opus''
   \<and> getAudioFileName (ChannelId feed1) (VideoId entryA) = ''audio/chan1/vidA.opus''
   \<and> trace (worldOf (updateEntry faultEnv feed1 entryA committedWorld)) =
       [Log ''found new video one vidA'', Probe ''vidA'', Log ''downloading one vidA'',
        Download ''vidA'', Log ''one vidA downloaded'', Log ''recoding one vidA'',
        Convert ''vidA'' ''tmp.opus'', Rename ''tmp.opus'' ''audio/chan1/vidA.opus'',
        Remove ''vidA'', Log ''one vidA recoded'']"
  by (simp add: sample_paths updateEntry_def feed1_def entryA_def os_Stat_def faultEnv_def sampleEnv_def
      isVideoReady_def downloadAudio_def recodeAudio_def os_Rename_def os_Remove_def
      emit_def logPrint_def committedWorld_def Let_def)

text \<open>
  C2 as amended: when the existence check of an entry succeeds at the moment the entry is
  processed, the step for that entry does nothing at all: the world, and so the trace,
  is unchanged; no probe, download or transcode is run. Consequently a sweep in which
  the check succeeds at every entry step it performs runs no probe, download,
  transcode or file operation and leaves the files as they are: a second sweep over an
  unchanged feed with the artifacts committed repeats nothing.
\<close>

theorem sweep_skips_existing:
  "(os_Stat env w (getAudioFileName (ChannelId feed) (VideoId entry)) = Inr info
      \<longrightarrow> updateEntry env feed entry w = Return () w)
   \<and> ((\<forall>(f, e, w') \<in> set (sweepSteps env (Feeds conf) w).
          \<exists>info. os_Stat env w' (getAudioFileName (ChannelId f) (VideoId e)) = Inr info)
      \<longrightarrow> files (worldOf (doUpdate env conf w)) = files w
          \<and> pipelineEvents (trace (worldOf (doUpdate env conf w))) = pipelineEvents (trace w))"
  using sweepSteps_idle [of env "Feeds conf" w]
  by (simp add: updateEntry_exists doUpdate_def)

lemma committed_all:
  "\<forall>feed \<in> set (Feeds conf1). \<forall>w' data entries e.
          files w' = files committedWorld \<longrightarrow> xml_Unmarshal sampleEnv data = Inr entries \<longrightarrow> e \<in> set entries \<longrightarrow>
          (\<exists>info. os_Stat sampleEnv w' (getAudioFileName (ChannelId feed) (VideoId e)) = Inr info)"
proof (intro ballI allI impI)
  fix feed and w' :: world and data entries e
  assume f: "feed \<in> set (Feeds conf1)" and w': "files w' = files committedWorld"
    and um: "xml_Unmarshal sampleEnv data = Inr entries" and e: "e \<in> set entries"
  from um have "entries = [entryA, entryB, entryNews]"
    by (simp add: sampleEnv_def split: if_splits)
  with e have e3: "VideoId e = ''vidA'' \<or> VideoId e = ''vidB'' \<or> VideoId e = ''vidN''"
    by (auto simp: entryA_def entryB_def entryNews_def)
  from f have f2: "ChannelId feed = ''chan1'' \<or> ChannelId feed = ''chan2''"
    by (auto simp: conf1_def feed1_def feed2_def)
  have sf: "stat_fault sampleEnv w' = (\<lambda>name. None)" by (simp add: sampleEnv_def)
  from e3 f2 show "\<exists>info. os_Stat sampleEnv w' (getAudioFileName (ChannelId feed) (VideoId e)) = Inr info"
    by (elim disjE) (simp_all add: sample_paths os_Stat_def sf w' committedWorld_def)
qed

lemma first_sweep:
  "\<exists>w1. doUpdate sampleEnv conf1 emptyWorld = Return () w1
     \<and> files w1 = files committedWorld
     \<and> pipelineEvents (trace w1) =
         [Probe ''vidA'', Download ''vidA'', Convert ''vidA'' ''tmp.opus'', Rename ''tmp.opus'' ''audio/chan1/vidA.opus'', Remove ''vidA'',
          Probe ''vidB'', Download ''vidB'', Convert ''vidB'' ''tmp.opus'', Rename ''tmp.opus'' ''audio/chan1/vidB.opus'', Remove ''vidB'',
          Probe ''vidN'', Download ''vidN'', Convert ''vidN'' ''tmp.opus'', Rename ''tmp.opus'' ''audio/chan1/vidN.opus'', Remove ''vidN'',
          Probe ''vidA'', Download ''vidA'', Convert ''vidA'' ''tmp.opus'', Rename ''tmp.opus'' ''audio/chan2/vidA.opus'', Remove ''vidA'',
          Probe ''vidB'', Download ''vidB'', Convert ''vidB'' ''tmp.opus'', Rename ''tmp.opus'' ''audio/chan2/vidB.opus'', Remove ''vidB'',
          Probe ''vidN'', Download ''vidN'', Convert ''vidN'' ''tmp.opus'', Rename ''tmp.opus'' ''audio/chan2/vidN.opus'', Remove ''vidN'']"
  by (simp add: sample_paths doUpdate_def conf1_def feed1_def feed2_def readFeed_def parseFeed_def filterEntries_def
      updateEntry_def entryA_def entryB_def entryNews_def os_Stat_def sampleEnv_def
      isVideoReady_def downloadAudio_def recodeAudio_def os_Rename_def os_Remove_def
      emit_def logPrint_def emptyWorld_def Let_def pipelineEvents_def fun_eq_iff committedWorld_def)

theorem sweep_skips_existing_witness:
  "os_Stat sampleEnv committedWorld (getAudioFileName (ChannelId feed1) (VideoId entryA)) = Inr 4
   \<and> updateEntry sampleEnv feed1 entryA committedWorld = Return () committedWorld
   \<and> (\<exists>w1. doUpdate sampleEnv conf1 emptyWorld = Return () w1
          \<and> Download ''vidA'' \<in> set (trace w1)
          \<and> files (worldOf (doUpdate sampleEnv conf1 w1)) = files w1
          \<and> pipelineEvents (trace (worldOf (doUpdate sampleEnv conf1 w1))) = pipelineEvents (trace w1))"
proof -
  have s: "os_Stat sampleEnv committedWorld (getAudioFileName (ChannelId feed1) (VideoId entryA)) = Inr 4"
    by (simp add: feed1_def entryA_def sample_paths os_Stat_def sampleEnv_def committedWorld_def)
  from sweep_skips_existing [where env = sampleEnv and w = committedWorld and feed = feed1
      and entry = entryA and info = 4, THEN conjunct1] s
  have u: "updateEntry sampleEnv feed1 entryA committedWorld = Return () committedWorld" by blast
  from first_sweep obtain w1 where w1: "doUpdate sampleEnv conf1 emptyWorld = Return () w1"
    and f: "files w1 = files committedWorld"
    and t: "Download ''vidA'' \<in> set (pipelineEvents (trace w1))" by auto
  from t have d: "Download ''vidA'' \<in> set (trace w1)" by (simp add: pipelineEvents_def)
  from sweepSteps_committed [OF committed_all f]
  have h: "\<forall>(f, e, w') \<in> set (sweepSteps sampleEnv (Feeds conf1) w1).
                \<exists>info. os_Stat sampleEnv w' (getAudioFileName (ChannelId f) (VideoId e)) = Inr info" .
  from sweep_skips_existing [where env = sampleEnv and conf = conf1 and w = w1, THEN conjunct2] h
  have "files (worldOf (doUpdate sampleEnv conf1 w1)) = files w1
     \<and> pipelineEvents (trace (worldOf (doUpdate sampleEnv conf1 w1))) = pipelineEvents (trace w1)"
    by (rule mp)
  with w1 d s u show ?thesis by blast
qed

subsection \<open>Feed retrieval (C5)\<close>

text \<open>
  C5 holds of the specification and not of the code: when the server answers with status
  200 and reading the body fails, \<open>readFeed\<close> returns a nil document together with a nil
  error, because the error of \<open>ioutil.ReadAll\<close> is bound to a second, inner \<open>err\<close>.
  The caller takes the nil error for success and parses the nil document; the sweep
  ends in \<open>log.Fatal\<close>.
\<close>

theorem readFeed_body_read_failure:
  "readFeed brokenBodyEnv emptyWorld ''chan1''
     = Return (None, None)
         (emit (HttpGet ''https://www.youtube.com/feeds/videos.xml?channel_id=chan1'') emptyWorld)
   \<and> doUpdate brokenBodyEnv conf1 emptyWorld
     = Exit \<lparr>files = Map.empty,
             trace = [HttpGet ''https://www.youtube.com/feeds/videos.xml?channel_id=chan1'', Log ''EOF'']\<rparr>"
  by (simp add: readFeed_def brokenBodyEnv_def sampleEnv_def doUpdate_def conf1_def feed1_def
      parseFeed_def emit_def logPrint_def emptyWorld_def)

subsection \<open>Readiness decision (C7)\<close>

text \<open>
  C7: \<open>isVideoReady\<close> returns true iff the invocation succeeds and its output contains
  \<open>not_live\<close> or \<open>was_live\<close>; a failed invocation gives false, never an error. In
  particular a successful invocation whose output contains \<open>was_live\<close> is ready, and
  one whose output holds the one status \<open>is_live\<close> is not ready. In the sweep, for an
  entry whose artifact is not found, not ready means the entry is deferred with no
  download, and ready means the download is invoked.
\<close>

theorem isVideoReady_decision:
  "fst (isVideoReady env w videoId) =
     (\<exists>out. probe_run env w videoId = (out, None)
        \<and> (\<exists>pre suf. out = pre @ ''not_live'' @ suf \<or> out = pre @ ''was_live'' @ suf))
   \<and> (\<forall>out e. probe_run env w videoId = (out, Some e) \<longrightarrow> \<not> fst (isVideoReady env w videoId))
   \<and> (\<forall>pre suf. probe_run env w videoId = (pre @ ''was_live'' @ suf, None)
        \<longrightarrow> fst (isVideoReady env w videoId))
   \<and> (\<forall>pre suf. probe_run env w videoId = (pre @ ''is_live'' @ suf, None)
                  \<and> singleStatus (pre @ ''is_live'' @ suf)
        \<longrightarrow> \<not> fst (isVideoReady env w videoId))
   \<and> (os_Stat env w0 (getAudioFileName (ChannelId feed) (VideoId entry)) = Inl err \<longrightarrow>
        (if fst (isVideoReady env (logPrint (''found new video '' @ Name feed @ '' '' @ VideoId entry) w0) (VideoId entry))
         then \<exists>rest. trace (worldOf (updateEntry env feed entry w0)) =
                trace w0 @ [Log (''found new video '' @ Name feed @ '' '' @ VideoId entry), Probe (VideoId entry),
                            Log (''downloading '' @ Name feed @ '' '' @ VideoId entry), Download (VideoId entry)] @ rest
         else trace (worldOf (updateEntry env feed entry w0)) =
                trace w0 @ [Log (''found new video '' @ Name feed @ '' '' @ VideoId entry), Probe (VideoId entry),
                            Log ((Name feed @ '' '' @ VideoId entry) @ '' not ready, skipped'')]
              \<and> updateEntry env feed entry w0 = Return () (worldOf (updateEntry env feed entry w0))))"
proof -
  obtain out perr where p: "probe_run env w videoId = (out, perr)" by (cases "probe_run env w videoId")
  have r: "fst (isVideoReady env w videoId) =
      (perr = None \<and> (strings_Contains out ''not_live'' \<or> strings_Contains out ''was_live''))"
    using p by (auto simp: isVideoReady_def Let_def split: option.splits)
  have a: "fst (isVideoReady env w videoId) =
     (\<exists>out. probe_run env w videoId = (out, None)
        \<and> (\<exists>pre suf. out = pre @ ''not_live'' @ suf \<or> out = pre @ ''was_live'' @ suf))"
    unfolding r p by (auto simp: strings_Contains_iff)
  have f: "\<forall>out e. probe_run env w videoId = (out, Some e) \<longrightarrow> \<not> fst (isVideoReady env w videoId)"
    unfolding r using p by auto
  have b: "\<forall>pre suf. probe_run env w videoId = (pre @ ''was_live'' @ suf, None)
        \<longrightarrow> fst (isVideoReady env w videoId)"
    unfolding a by blast
  have c: "\<forall>pre suf. probe_run env w videoId = (pre @ ''is_live'' @ suf, None)
                  \<and> singleStatus (pre @ ''is_live'' @ suf)
        \<longrightarrow> \<not> fst (isVideoReady env w videoId)"
  proof (intro allI impI, elim conjE)
    fix pre suf
    assume q: "probe_run env w videoId = (pre @ ''is_live'' @ suf, None)"
      and s: "singleStatus (pre @ ''is_live'' @ suf)"
    have i: "strings_Contains (pre @ ''is_live'' @ suf) ''is_live''"
      unfolding strings_Contains_iff by blast
    from s i have "\<not> strings_Contains (pre @ ''is_live'' @ suf) ''not_live''"
      "\<not> strings_Contains (pre @ ''is_live'' @ suf) ''was_live''"
      by (auto simp: singleStatus_def split: if_splits)
    with q p show "\<not> fst (isVideoReady env w videoId)" unfolding r by auto
  qed
  have d: "os_Stat env w0 (getAudioFileName (ChannelId feed) (VideoId entry)) = Inl err \<longrightarrow>
        (if fst (isVideoReady env (logPrint (''found new video '' @ Name feed @ '' '' @ VideoId entry) w0) (VideoId entry))
         then \<exists>rest. trace (worldOf (updateEntry env feed entry w0)) =
                trace w0 @ [Log (''found new video '' @ Name feed @ '' '' @ VideoId entry), Probe (VideoId entry),
                            Log (''downloading '' @ Name feed @ '' '' @ VideoId entry), Download (VideoId entry)] @ rest
         else trace (worldOf (updateEntry env feed entry w0)) =
                trace w0 @ [Log (''found new video '' @ Name feed @ '' '' @ VideoId entry), Probe (VideoId entry),
                            Log ((Name feed @ '' '' @ VideoId entry) @ '' not ready, skipped'')]
              \<and> updateEntry env feed entry w0 = Return () (worldOf (updateEntry env feed entry w0)))"
  proof
    assume "os_Stat env w0 (getAudioFileName (ChannelId feed) (VideoId entry)) = Inl err"
    from updateEntry_absent [OF this] show "(if fst (isVideoReady env (logPrint (''found new video '' @ Name feed @ '' '' @ VideoId entry) w0) (VideoId entry))
         then \<exists>rest. trace (worldOf (updateEntry env feed entry w0)) =
                trace w0 @ [Log (''found new video '' @ Name feed @ '' '' @ VideoId entry), Probe (VideoId entry),
                            Log (''downloading '' @ Name feed @ '' '' @ VideoId entry), Download (VideoId entry)] @ rest
         else trace (worldOf (updateEntry env feed entry w0)) =
                trace w0 @ [Log (''found new video '' @ Name feed @ '' '' @ VideoId entry), Probe (VideoId entry),
                            Log ((Name feed @ '' '' @ VideoId entry) @ '' not ready, skipped'')]
              \<and> updateEntry env feed entry w0 = Return () (worldOf (updateEntry env feed entry w0)))"
      by (auto split: if_splits)
  qed
  from a f b c d show ?thesis by blast
qed

theorem isVideoReady_decision_witness:
  "probe_run liveEnv emptyWorld ''vidA'' = ([] @ ''is_live'' @ [CHR 0x0A], None)
   \<and> singleStatus ([] @ ''is_live'' @ [CHR 0x0A])
   \<and> \<not> fst (isVideoReady liveEnv emptyWorld ''vidA'')
   \<and> os_Stat liveEnv emptyWorld (getAudioFileName (ChannelId feed1) (VideoId entryA)) = Inl ErrNotExist
   \<and> trace (worldOf (updateEntry liveEnv feed1 entryA emptyWorld)) =
       [Log ''found new video one vidA'', Probe ''vidA'', Log ''one vidA not ready, skipped'']
   \<and> probe_run wasLiveEnv emptyWorld ''vidA'' = ([] @ ''was_live'' @ [CHR 0x0A], None)
   \<and> fst (isVideoReady wasLiveEnv emptyWorld ''vidA'')
   \<and> (\<exists>rest. trace (worldOf (updateEntry wasLiveEnv feed1 entryA emptyWorld)) =
         [Log ''found new video one vidA'', Probe ''vidA'', Log ''downloading one vidA'',
          Download ''vidA''] @ rest)"
proof -
  have p: "probe_run liveEnv emptyWorld ''vidA'' = ([] @ ''is_live'' @ [CHR 0x0A], None)"
    by (simp add: liveEnv_def sampleEnv_def)
  have s: "os_Stat liveEnv emptyWorld (getAudioFileName (ChannelId feed1) (VideoId entryA)) = Inl ErrNotExist"
    by (simp add: feed1_def entryA_def sample_paths os_Stat_def liveEnv_def sampleEnv_def emptyWorld_def)
  have n: "\<not> fst (isVideoReady liveEnv (logPrint (''found new video '' @ Name feed1 @ '' '' @ VideoId entryA) emptyWorld) (VideoId entryA))"
    by (simp add: isVideoReady_def liveEnv_def sampleEnv_def Let_def)
  have c: "singleStatus ([] @ ''is_live'' @ [CHR 0x0A])"
    by (simp add: singleStatus_def)
  have e: "trace emptyWorld = []" by (simp add: emptyWorld_def)
  have nm: "Name feed1 = ''one''" "VideoId entryA = ''vidA''" by (simp_all add: feed1_def entryA_def)
  note T = isVideoReady_decision [of liveEnv emptyWorld "''vidA''" emptyWorld feed1 entryA ErrNotExist]
  from T [THEN conjunct2, THEN conjunct2, THEN conjunct2, THEN conjunct1, rule_format, OF conjI [OF p c]]
  have r: "\<not> fst (isVideoReady liveEnv emptyWorld ''vidA'')" .
  from T [THEN conjunct2, THEN conjunct2, THEN conjunct2, THEN conjunct2, rule_format, OF s] n
  have "trace (worldOf (updateEntry liveEnv feed1 entryA emptyWorld)) =
      trace emptyWorld @ [Log (''found new video '' @ Name feed1 @ '' '' @ VideoId entryA), Probe (VideoId entryA),
                            Log ((Name feed1 @ '' '' @ VideoId entryA) @ '' not ready, skipped'')]"
    by simp
  then have t: "trace (worldOf (updateEntry liveEnv feed1 entryA emptyWorld)) =
       [Log ''found new video one vidA'', Probe ''vidA'', Log ''one vidA not ready, skipped'']"
    by (simp add: e nm)
  have p2: "probe_run wasLiveEnv emptyWorld ''vidA'' = ([] @ ''was_live'' @ [CHR 0x0A], None)"
    by (simp add: wasLiveEnv_def sampleEnv_def)
  have s2: "os_Stat wasLiveEnv emptyWorld (getAudioFileName (ChannelId feed1) (VideoId entryA)) = Inl ErrNotExist"
    by (simp add: feed1_def entryA_def sample_paths os_Stat_def wasLiveEnv_def sampleEnv_def emptyWorld_def)
  have y: "fst (isVideoReady wasLiveEnv (logPrint (''found new video '' @ Name feed1 @ '' '' @ VideoId entryA) emptyWorld) (VideoId entryA))"
    by (simp add: isVideoReady_def wasLiveEnv_def sampleEnv_def Let_def)
  note T2 = isVideoReady_decision [of wasLiveEnv emptyWorld "''vidA''" emptyWorld feed1 entryA ErrNotExist]
  from T2 [THEN conjunct2, THEN conjunct2, THEN conjunct1, rule_format, OF p2]
  have r2: "fst (isVideoReady wasLiveEnv emptyWorld ''vidA'')" .
  from T2 [THEN conjunct2, THEN conjunct2, THEN conjunct2, THEN conjunct2, rule_format, OF s2] y
  obtain rest where "trace (worldOf (updateEntry wasLiveEnv feed1 entryA emptyWorld)) =
      trace emptyWorld @ [Log (''found new video '' @ Name feed1 @ '' '' @ VideoId entryA), Probe (VideoId entryA),
                          Log (''downloading '' @ Name feed1 @ '' '' @ VideoId entryA), Download (VideoId entryA)] @ rest"
    by auto
  then have t2: "\<exists>rest. trace (worldOf (updateEntry wasLiveEnv feed1 entryA emptyWorld)) =
         [Log ''found new video one vidA'', Probe ''vidA'', Log ''downloading one vidA'',
          Download ''vidA''] @ rest"
    by (simp add: e nm)
  from p c r s t p2 r2 t2 show ?thesis by blast
qed

subsection \<open>Failure of the existence check (C6)\<close>

text \<open>
  C6, as the specification states it, fails on the code: \<open>doUpdate\<close> only tests
  \<open>err == nil\<close> after \<open>os.Stat\<close>. When the check fails with an error other than
  "not found", the entry is not skipped: it is probed, downloaded and transcoded.
\<close>

theorem stat_fault_proceeds_counterexample:
  "os_Stat faultEnv emptyWorld (getAudioFileName ''chan1'' ''vidA'') = Inl (ErrOther ''permission denied'')
   \<and> trace (worldOf (updateEntry faultEnv feed1 entryA emptyWorld)) =
       [Log ''found new video one vidA'', Probe ''vidA'', Log ''downloading one vidA'',
        Download ''vidA'', Log ''one vidA downloaded'', Log ''recoding one vidA'',
        Convert ''vidA'' ''tmp.opus'', Rename ''tmp.opus'' ''audio/chan1/vidA.opus'',
        Remove ''vidA'', Log ''one vidA recoded'']"
  by (simp add: sample_paths updateEntry_def feed1_def entryA_def os_Stat_def faultEnv_def sampleEnv_def
      isVideoReady_def downloadAudio_def recodeAudio_def os_Rename_def os_Remove_def
      emit_def logPrint_def emptyWorld_def Let_def)

text \<open>
  C6 as amended: whatever the error of the existence check, "not found" or any other,
  the entry is handled as a new video: the sweep logs it and runs the readiness probe;
  when the probe reports ready it invokes the download; when the download succeeds it
  invokes the transcode; and when the transcode and the rename succeed the artifact is
  placed at the canonical path and the download file removed. No storage error is told
  apart, and the failed check by itself neither skips the entry nor ends the process.
\<close>

theorem stat_error_proceeds:
  fixes env :: env and w :: world and feed :: ConfFeed and entry :: YtEntry
  defines "desc \<equiv> Name feed @ '' '' @ VideoId entry"
    and "dst \<equiv> getAudioFileName (ChannelId feed) (VideoId entry)"
  defines "w1 \<equiv> logPrint (''found new video '' @ desc) w"
  defines "w3 \<equiv> logPrint (''downloading '' @ desc) (emit (Probe (VideoId entry)) w1)"
  defines "w6 \<equiv> logPrint (''recoding '' @ desc)
                   (logPrint (desc @ '' downloaded'') (snd (downloadAudio env w3 (VideoId entry))))"
  assumes st: "os_Stat env w dst = Inl err"
  shows "\<exists>rest. trace (worldOf (updateEntry env feed entry w)) =
            trace w @ [Log (''found new video '' @ desc), Probe (VideoId entry)] @ rest
          \<and> (fst (isVideoReady env w1 (VideoId entry)) \<longrightarrow>
               (\<exists>rest2. rest = [Log (''downloading '' @ desc), Download (VideoId entry)] @ rest2
                  \<and> (snd (fst (downloadAudio env w3 (VideoId entry))) = None \<longrightarrow>
                       (\<exists>rest3. rest2 = [Log (desc @ '' downloaded''), Log (''recoding '' @ desc),
                                          Convert (VideoId entry) ''tmp.opus''] @ rest3
                          \<and> (\<forall>w7. recodeAudio env w6 (VideoId entry) dst = Return () w7 \<longrightarrow>
                                rest3 = [Rename ''tmp.opus'' dst, Remove (VideoId entry),
                                         Log (desc @ '' recoded'')]
                                \<and> updateEntry env feed entry w =
                                    Return () (logPrint (desc @ '' recoded'') (os_Remove (VideoId entry) w7)))
                          \<and> (\<forall>wx. recodeAudio env w6 (VideoId entry) dst = Exit wx \<longrightarrow>
                                updateEntry env feed entry w = Exit wx)))))"
proof -
  define vid where "vid = VideoId entry"
  define U where "U = updateEntry env feed entry w"
  obtain ready w2 where r: "isVideoReady env w1 vid = (ready, w2)"
    by (cases "isVideoReady env w1 vid")
  from isVideoReady_world [of env w1 vid] r have w2: "w2 = emit (Probe vid) w1"
    by simp
  have t1: "trace w1 = trace w @ [Log (''found new video '' @ desc)]"
    by (simp add: w1_def logPrint_def emit_def)
  have st': "os_Stat env w (getAudioFileName (ChannelId feed) (VideoId entry)) = Inl err"
    using st by (simp add: dst_def)
  have main: "\<exists>rest. trace (worldOf U) = trace w @ [Log (''found new video '' @ desc), Probe vid] @ rest
          \<and> (fst (isVideoReady env w1 vid) \<longrightarrow>
               (\<exists>rest2. rest = [Log (''downloading '' @ desc), Download vid] @ rest2
                  \<and> (snd (fst (downloadAudio env w3 vid)) = None \<longrightarrow>
                       (\<exists>rest3. rest2 = [Log (desc @ '' downloaded''), Log (''recoding '' @ desc),
                                          Convert vid ''tmp.opus''] @ rest3
                          \<and> (\<forall>w7. recodeAudio env w6 vid dst = Return () w7 \<longrightarrow>
                                rest3 = [Rename ''tmp.opus'' dst, Remove vid, Log (desc @ '' recoded'')]
                                \<and> U = Return () (logPrint (desc @ '' recoded'') (os_Remove vid w7)))
                          \<and> (\<forall>wx. recodeAudio env w6 vid dst = Exit wx \<longrightarrow> U = Exit wx)))))"
  proof (cases ready)
    case False
    have u: "U = Return () (logPrint (desc @ '' not ready, skipped'') (emit (Probe vid) w1))"
      using st' r False w2
      unfolding U_def updateEntry_def Let_def desc_def w1_def vid_def by simp
    show ?thesis
      unfolding u using r False t1 by (simp add: logPrint_def emit_def)
  next
    case True
    obtain fileDown derr w4 where d: "downloadAudio env w3 vid = ((fileDown, derr), w4)"
      by (cases "downloadAudio env w3 vid") auto
    from downloadAudio_effect [of env w3 vid] d
    obtain r4 where t4: "trace w4 = trace w3 @ Download vid # r4"
      and fd: "fileDown = vid" by auto
    have t3: "trace w3 = trace w @ [Log (''found new video '' @ desc), Probe vid, Log (''downloading '' @ desc)]"
      by (simp add: w3_def logPrint_def emit_def t1 vid_def)
    show ?thesis
    proof (cases derr)
      case (Some e)
      have u: "U = Return () (logPrint (desc @ '' download error, skipped'') w4)"
        using st' r True w2 d Some
        unfolding U_def updateEntry_def Let_def desc_def w1_def w3_def vid_def by simp
      show ?thesis
        unfolding u using r True t4 t3 d Some by (simp add: logPrint_def emit_def)
    next
      case None
      have w6: "w6 = logPrint (''recoding '' @ desc) (logPrint (desc @ '' downloaded'') w4)"
        using d by (simp add: w6_def vid_def)
      have t6: "trace w6 = trace w4 @ [Log (desc @ '' downloaded''), Log (''recoding '' @ desc)]"
        by (simp add: w6 logPrint_def emit_def)
      from downloadAudio_ok_trace [of env w3 vid] d None
      have t4: "trace w4 = trace w3 @ [Download vid]" by simp
      from recodeAudio_effect [of env w6 vid dst]
      obtain r7 where t7: "trace (worldOf (recodeAudio env w6 vid dst)) = trace w6 @ Convert vid ''tmp.opus'' # r7"
        by blast
      have u: "U =
         (case recodeAudio env w6 vid dst of
            Return u w7 \<Rightarrow> Return () (logPrint (desc @ '' recoded'') (os_Remove vid w7))
          | Exit wx \<Rightarrow> Exit wx
          | Panicked wx \<Rightarrow> Panicked wx)"
        using st' r True w2 d None fd
        unfolding U_def updateEntry_def Let_def desc_def w1_def w3_def vid_def w6 dst_def
        by simp
      show ?thesis
      proof (cases "recodeAudio env w6 vid dst")
        case (Return u7 w7)
        from recodeAudio_Return [OF Return]
        have "trace w7 = trace w6 @ [Convert vid ''tmp.opus'', Rename ''tmp.opus'' dst]" .
        then show ?thesis
          unfolding u using r True t6 t4 t3 d None Return
          by (simp add: logPrint_def emit_def os_Remove_def)
      next
        case (Exit wx)
        then show ?thesis
          unfolding u using r True t7 t6 t4 t3 d None
          by (simp add: logPrint_def emit_def)
      next
        case (Panicked wx)
        then show ?thesis
          unfolding u using r True t7 t6 t4 t3 d None
          by (simp add: logPrint_def emit_def)
      qed
    qed
  qed
  then show ?thesis unfolding U_def vid_def .
qed

theorem stat_error_proceeds_witness:
  "os_Stat faultEnv emptyWorld (getAudioFileName (ChannelId feed1) (VideoId entryA))
     = Inl (ErrOther ''permission denied'')
   \<and> (\<exists>rest3. trace (worldOf (updateEntry faultEnv feed1 entryA emptyWorld)) =
         [Log ''found new video one vidA'', Probe ''vidA'', Log ''downloading one vidA'',
          Download ''vidA'', Log ''one vidA downloaded'', Log ''recoding one vidA'',
          Convert ''vidA'' ''tmp.opus''] @ rest3)"
proof -
  let ?w1 = "logPrint (''found new video '' @ Name feed1 @ '' '' @ VideoId entryA) emptyWorld"
  let ?w3 = "logPrint (''downloading '' @ Name feed1 @ '' '' @ VideoId entryA) (emit (Probe (VideoId entryA)) ?w1)"
  have h: "os_Stat faultEnv emptyWorld (getAudioFileName (ChannelId feed1) (VideoId entryA))
     = Inl (ErrOther ''permission denied'')"
    by (simp add: os_Stat_def faultEnv_def sampleEnv_def)
  have rdy: "fst (isVideoReady faultEnv ?w1 (VideoId entryA))"
    by (simp add: isVideoReady_def faultEnv_def sampleEnv_def Let_def)
  have dl: "snd (fst (downloadAudio faultEnv ?w3 (VideoId entryA))) = None"
    by (simp add: downloadAudio_def faultEnv_def sampleEnv_def Let_def)
  from stat_error_proceeds [OF h] rdy dl
  obtain rest3 where "trace (worldOf (updateEntry faultEnv feed1 entryA emptyWorld)) =
      trace emptyWorld @ [Log (''found new video '' @ Name feed1 @ '' '' @ VideoId entryA), Probe (VideoId entryA)]
        @ [Log (''downloading '' @ Name feed1 @ '' '' @ VideoId entryA), Download (VideoId entryA)]
        @ [Log ((Name feed1 @ '' '' @ VideoId entryA) @ '' downloaded''),
           Log (''recoding '' @ Name feed1 @ '' '' @ VideoId entryA), Convert (VideoId entryA) ''tmp.opus''] @ rest3"
    by blast
  then have "trace (worldOf (updateEntry faultEnv feed1 entryA emptyWorld)) =
         [Log ''found new video one vidA'', Probe ''vidA'', Log ''downloading one vidA'',
          Download ''vidA'', Log ''one vidA downloaded'', Log ''recoding one vidA'',
          Convert ''vidA'' ''tmp.opus''] @ rest3"
    by (simp add: feed1_def entryA_def emptyWorld_def)
  with h show ?thesis by blast
qed

subsection \<open>Malformed feed documents (C4)\<close>

text \<open>
  C4, as the specification states it, fails on the code: \<open>parseFeed\<close> has no error
  result; on a document that does not parse it calls \<open>log.Fatal\<close>. The sweep ends
  there with the process, and the second configured channel is never requested.
\<close>

theorem malformed_feed_exits_counterexample:
  "xml_Unmarshal malformedEnv ''<feed'' = Inl ''EOF''
   \<and> doUpdate malformedEnv conf1 emptyWorld
     = Exit \<lparr>files = Map.empty,
             trace = [HttpGet ''https://www.youtube.com/feeds/videos.xml?channel_id=chan1'', Log ''EOF'']\<rparr>"
  by (simp add: readFeed_def malformedEnv_def sampleEnv_def doUpdate_def conf1_def feed1_def
      parseFeed_def emit_def logPrint_def emptyWorld_def)

text \<open>
  C4 as amended: for every malformed feed document \<open>parseFeed\<close> logs the parse error
  and terminates the process; a sweep that retrieves such a document for a channel ends
  at that channel, and the channels after it are not processed.
\<close>

theorem parse_failure_exits:
  assumes "xml_Unmarshal env (case data of None \<Rightarrow> [] | Some b \<Rightarrow> b) = Inl err"
  shows "parseFeed env w data kws = Exit (logPrint err w)
       \<and> (readFeed env start (ChannelId feed) = Return (data, None) w
            \<longrightarrow> updateFeedList env (feed # fs) start = Exit (logPrint err w)
              \<and> (Feeds conf = feed # fs \<longrightarrow> doUpdate env conf start = Exit (logPrint err w)))"
  using assms by (simp add: parseFeed_def doUpdate_def)

theorem parse_failure_exits_witness:
  "xml_Unmarshal malformedEnv (case Some ''<feed'' of None \<Rightarrow> [] | Some b \<Rightarrow> b) = Inl ''EOF''
   \<and> readFeed malformedEnv emptyWorld (ChannelId feed1)
       = Return (Some ''<feed'', None) (emit (HttpGet ''https://www.youtube.com/feeds/videos.xml?channel_id=chan1'') emptyWorld)
   \<and> Feeds conf1 = feed1 # [feed2]
   \<and> doUpdate malformedEnv conf1 emptyWorld
       = Exit (logPrint ''EOF'' (emit (HttpGet ''https://www.youtube.com/feeds/videos.xml?channel_id=chan1'') emptyWorld))"
proof -
  have h: "xml_Unmarshal malformedEnv (case Some ''<feed'' of None \<Rightarrow> [] | Some b \<Rightarrow> b) = Inl ''EOF''"
    by (simp add: malformedEnv_def sampleEnv_def)
  have r: "readFeed malformedEnv emptyWorld (ChannelId feed1)
       = Return (Some ''<feed'', None) (emit (HttpGet ''https://www.youtube.com/feeds/videos.xml?channel_id=chan1'') emptyWorld)"
    by (simp add: readFeed_def malformedEnv_def sampleEnv_def feed1_def)
  have c: "Feeds conf1 = feed1 # [feed2]" by (simp add: conf1_def)
  from parse_failure_exits [OF h, where start = emptyWorld and feed = feed1 and fs = "[feed2]"
      and conf = conf1
      and w = "emit (HttpGet ''https://www.youtube.com/feeds/videos.xml?channel_id=chan1'') emptyWorld"] r c
  show ?thesis using h by simp
qed

subsection \<open>Committed artifacts and the sweep (C10)\<close>

text \<open>
  C10, as stated, fails on the code: the download file is named by the video id, a
  string taken from the feed, and \<open>downloadAudio\<close> removes that file when the download
  fails (as \<open>doUpdate\<close> does after a transcode). For an entry whose video id is the
  path of a committed artifact the sweep removes that artifact.
\<close>

theorem hostile_video_id_counterexample:
  "files committedWorld ''audio/chan1/vidA.opus'' = Some ''opus''
   \<and> getAudioFileName ''chan1'' ''vidA'' = ''audio/chan1/vidA.opus''
   \<and> xml_Unmarshal evilEnv ''<feed/>'' = Inr [evilEntry]
   \<and> files (worldOf (updateEntry evilEnv feed1 evilEntry committedWorld)) ''audio/chan1/vidA.opus'' = None
   \<and> files (worldOf (doUpdate evilEnv conf1 committedWorld)) ''audio/chan1/vidA.opus'' = None"
  by (simp add: updateEntry_def feed1_def feed2_def evilEntry_def os_Stat_def evilEnv_def sampleEnv_def
      isVideoReady_def downloadAudio_def os_Remove_def doUpdate_def conf1_def readFeed_def parseFeed_def
      filterEntries_def
      emit_def logPrint_def committedWorld_def Let_def getAudioFileName_def filepath_Clean_def cleanStep_def)

lemma updateEntry_renames:
  "\<forall>a b. Rename a b \<in> set (drop (length (trace w)) (trace (worldOf (updateEntry env feed entry w))))
      \<longrightarrow> a = ''tmp.opus'' \<and> b = getAudioFileName (ChannelId feed) (VideoId entry)
          \<and> (\<exists>err. os_Stat env w (getAudioFileName (ChannelId feed) (VideoId entry)) = Inl err)"
proof (cases "os_Stat env w (getAudioFileName (ChannelId feed) (VideoId entry))")
  case (Inr info)
  then show ?thesis by (simp add: updateEntry_exists)
next
  case (Inl err)
  from updateEntry_absent [OF Inl] obtain rest where
    t: "trace (worldOf (updateEntry env feed entry w)) =
            trace w @ [Log (''found new video '' @ Name feed @ '' '' @ VideoId entry), Probe (VideoId entry)] @ rest"
    and n: "\<forall>a b. Rename a b \<in> set rest \<longrightarrow>
            a = ''tmp.opus'' \<and> b = getAudioFileName (ChannelId feed) (VideoId entry)"
    by blast
  show ?thesis using n Inl unfolding t by auto
qed

lemma canonical_has_sep:
  assumes "CHR ''/'' \<notin> set c" "CHR ''/'' \<notin> set v" "c \<noteq> ''..''"
  shows "CHR ''/'' \<in> set (getAudioFileName c v)"
  using assms by (simp add: getAudioFileName_plain)

lemma updateEntry_keeps:
  assumes p: "CHR ''/'' \<in> set p" and f: "files w p = Some content"
    and nf: "getAudioFileName (ChannelId feed) (VideoId entry) = p \<longrightarrow> stat_fault env w p = None"
    and v: "(\<exists>err. os_Stat env w (getAudioFileName (ChannelId feed) (VideoId entry)) = Inl err)
              \<longrightarrow> CHR ''/'' \<notin> set (VideoId entry)"
  shows "files (worldOf (updateEntry env feed entry w)) p = Some content"
proof (cases "os_Stat env w (getAudioFileName (ChannelId feed) (VideoId entry))")
  case (Inr info)
  then show ?thesis using f by (simp add: updateEntry_exists)
next
  case (Inl err)
  have d: "p \<noteq> getAudioFileName (ChannelId feed) (VideoId entry)"
  proof
    assume e: "p = getAudioFileName (ChannelId feed) (VideoId entry)"
    with nf have "stat_fault env w p = None" by simp
    with f have "os_Stat env w p = Inr (length content)" by (simp add: os_Stat_def)
    with Inl e show False by simp
  qed
  from p v Inl have pv: "p \<noteq> VideoId entry" by auto
  from p have pt: "p \<noteq> ''tmp.opus''" by auto
  from updateEntry_absent [OF Inl]
  have "\<forall>p. p \<noteq> VideoId entry \<longrightarrow> p \<noteq> ''tmp.opus'' \<longrightarrow>
            p \<noteq> getAudioFileName (ChannelId feed) (VideoId entry) \<longrightarrow>
            files (worldOf (updateEntry env feed entry w)) p = files w p"
    by blast
  with d pv pt f show ?thesis by simp
qed

lemma entrySteps_keeps:
  assumes p: "CHR ''/'' \<in> set p"
  shows "files w p = Some content
         \<Longrightarrow> \<forall>(f, e, w') \<in> set (entrySteps env feed es w). ((\<exists>err. os_Stat env w' (getAudioFileName (ChannelId f) (VideoId e)) = Inl err) \<longrightarrow> CHR ''/'' \<notin> set (VideoId e))
               \<and> (getAudioFileName (ChannelId f) (VideoId e) = p \<longrightarrow> stat_fault env w' p = None)
         \<Longrightarrow> files (worldOf (updateEntries env feed es w)) p = Some content"
proof (induction es arbitrary: w)
  case Nil
  then show ?case by simp
next
  case (Cons entry es)
  from Cons.prems(2) have v: "(\<exists>err. os_Stat env w (getAudioFileName (ChannelId feed) (VideoId entry)) = Inl err)
              \<longrightarrow> CHR ''/'' \<notin> set (VideoId entry)"
    and nf: "getAudioFileName (ChannelId feed) (VideoId entry) = p \<longrightarrow> stat_fault env w p = None"
    by auto
  have k: "files (worldOf (updateEntry env feed entry w)) p = Some content"
    by (rule updateEntry_keeps [OF p Cons.prems(1) nf v])
  show ?case
  proof (cases "updateEntry env feed entry w")
    case (Return u w')
    with k have f': "files w' p = Some content" by simp
    from Cons.prems(2) Return have "\<forall>(f, e, w') \<in> set (entrySteps env feed es w'). ((\<exists>err. os_Stat env w' (getAudioFileName (ChannelId f) (VideoId e)) = Inl err) \<longrightarrow> CHR ''/'' \<notin> set (VideoId e))
               \<and> (getAudioFileName (ChannelId f) (VideoId e) = p \<longrightarrow> stat_fault env w' p = None)"
      by simp
    from Cons.IH [OF f' this] Return show ?thesis by simp
  next
    case (Exit wx)
    with k show ?thesis by simp
  next
    case (Panicked wx)
    with k show ?thesis by simp
  qed
qed

lemma sweepSteps_keeps:
  assumes p: "CHR ''/'' \<in> set p"
  shows "files w p = Some content
         \<Longrightarrow> \<forall>(f, e, w') \<in> set (sweepSteps env fs w). ((\<exists>err. os_Stat env w' (getAudioFileName (ChannelId f) (VideoId e)) = Inl err) \<longrightarrow> CHR ''/'' \<notin> set (VideoId e))
               \<and> (getAudioFileName (ChannelId f) (VideoId e) = p \<longrightarrow> stat_fault env w' p = None)
         \<Longrightarrow> files (worldOf (updateFeedList env fs w)) p = Some content"
proof (induction fs arbitrary: w)
  case Nil
  then show ?case by simp
next
  case (Cons feed fs)
  note rf = readFeed_effect [of env w "ChannelId feed"]
  show ?case
  proof (cases "readFeed env w (ChannelId feed)")
    case (Exit wx)
    with rf Cons.prems(1) show ?thesis by simp
  next
    case (Panicked wx)
    with rf Cons.prems(1) show ?thesis by simp
  next
    case (Return de w1)
    obtain data err where de: "de = (data, err)" by (cases de)
    from rf Return Cons.prems(1) have f1: "files w1 p = Some content" by simp
    show ?thesis
    proof (cases err)
      case (Some e)
      have fl: "files (logPrint e w1) p = Some content" using f1 by (simp add: logPrint_effect)
      from Cons.prems(2) Return de Some
      have "\<forall>(f, e, w') \<in> set (sweepSteps env fs (logPrint e w1)). ((\<exists>err. os_Stat env w' (getAudioFileName (ChannelId f) (VideoId e)) = Inl err) \<longrightarrow> CHR ''/'' \<notin> set (VideoId e))
               \<and> (getAudioFileName (ChannelId f) (VideoId e) = p \<longrightarrow> stat_fault env w' p = None)"
        by simp
      from Cons.IH [OF fl this] show ?thesis using Return de Some by simp
    next
      case None
      from parseFeed_cases [of env data w1 "Keywords feed"]
      show ?thesis
      proof (elim disjE exE conjE)
        fix perr
        assume "parseFeed env w1 data (Keywords feed) = Exit (logPrint perr w1)"
        then show ?thesis using Return de None f1 by (simp add: logPrint_effect)
      next
        fix entries
        assume pf: "parseFeed env w1 data (Keywords feed)
                     = Return (filterEntries (strings_ToLower env) entries (Keywords feed)) w1"
        define es where "es = filterEntries (strings_ToLower env) entries (Keywords feed)"
        from Cons.prems(2) Return de None pf
        have all: "\<forall>(f, e, w') \<in> set (entrySteps env feed es w1 @
                    (case updateEntries env feed es w1 of
                       Exit wx \<Rightarrow> [] | Panicked wx \<Rightarrow> [] | Return u w3 \<Rightarrow> sweepSteps env fs w3)).
             ((\<exists>err. os_Stat env w' (getAudioFileName (ChannelId f) (VideoId e)) = Inl err) \<longrightarrow> CHR ''/'' \<notin> set (VideoId e))
               \<and> (getAudioFileName (ChannelId f) (VideoId e) = p \<longrightarrow> stat_fault env w' p = None)"
          by (simp add: es_def)
        then have "\<forall>(f, e, w') \<in> set (entrySteps env feed es w1). ((\<exists>err. os_Stat env w' (getAudioFileName (ChannelId f) (VideoId e)) = Inl err) \<longrightarrow> CHR ''/'' \<notin> set (VideoId e))
               \<and> (getAudioFileName (ChannelId f) (VideoId e) = p \<longrightarrow> stat_fault env w' p = None)"
          by auto
        from entrySteps_keeps [OF p f1 this]
        have k: "files (worldOf (updateEntries env feed es w1)) p = Some content" .
        show ?thesis
        proof (cases "updateEntries env feed es w1")
          case (Return u w3)
          with k have f3: "files w3 p = Some content" by simp
          from all Return have "\<forall>(f, e, w') \<in> set (sweepSteps env fs w3). ((\<exists>err. os_Stat env w' (getAudioFileName (ChannelId f) (VideoId e)) = Inl err) \<longrightarrow> CHR ''/'' \<notin> set (VideoId e))
               \<and> (getAudioFileName (ChannelId f) (VideoId e) = p \<longrightarrow> stat_fault env w' p = None)"
            by auto
          from Cons.IH [OF f3 this] show ?thesis
            using \<open>readFeed env w (ChannelId feed) = Return de w1\<close> de None pf Return
            by (simp add: es_def)
        next
          case (Exit wx)
          with k show ?thesis
            using \<open>readFeed env w (ChannelId feed) = Return de w1\<close> de None pf
            by (simp add: es_def)
        next
          case (Panicked wx)
          with k show ?thesis
            using \<open>readFeed env w (ChannelId feed) = Return de w1\<close> de None pf
            by (simp add: es_def)
        qed
      qed
    qed
  qed
qed

text \<open>
  C10 as amended: the step for an entry renames only \<open>tmp.opus\<close> onto the canonical path
  of that entry, and only after the existence check on that path failed. For a sweep
  in which every entry whose existence check fails has a video id without path
  separator, the artifact at the canonical path of a channel id and a video id without
  path separator (the channel id not \<open>..\<close>) that is committed when the sweep starts
  is left unchanged, provided the existence check on that path does not fail with
  another error when the sweep performs it.
\<close>

theorem sweep_keeps_artifacts:
  "(\<forall>a b. Rename a b \<in> set (drop (length (trace w)) (trace (worldOf (updateEntry env feed entry w))))
      \<longrightarrow> a = ''tmp.opus'' \<and> b = getAudioFileName (ChannelId feed) (VideoId entry)
          \<and> (\<exists>err. os_Stat env w (getAudioFileName (ChannelId feed) (VideoId entry)) = Inl err))
   \<and> (CHR ''/'' \<notin> set c \<and> CHR ''/'' \<notin> set v \<and> c \<noteq> ''..''
       \<and> files w (getAudioFileName c v) = Some content
       \<and> (\<forall>(f, e, w') \<in> set (sweepSteps env (Feeds conf) w). ((\<exists>err. os_Stat env w' (getAudioFileName (ChannelId f) (VideoId e)) = Inl err) \<longrightarrow> CHR ''/'' \<notin> set (VideoId e))
               \<and> (getAudioFileName (ChannelId f) (VideoId e) = getAudioFileName c v
                     \<longrightarrow> stat_fault env w' (getAudioFileName c v) = None))
       \<longrightarrow> files (worldOf (doUpdate env conf w)) (getAudioFileName c v) = Some content)"
proof -
  have "CHR ''/'' \<notin> set c \<and> CHR ''/'' \<notin> set v \<and> c \<noteq> ''..''
       \<and> files w (getAudioFileName c v) = Some content
       \<and> (\<forall>(f, e, w') \<in> set (sweepSteps env (Feeds conf) w). ((\<exists>err. os_Stat env w' (getAudioFileName (ChannelId f) (VideoId e)) = Inl err) \<longrightarrow> CHR ''/'' \<notin> set (VideoId e))
               \<and> (getAudioFileName (ChannelId f) (VideoId e) = getAudioFileName c v
                     \<longrightarrow> stat_fault env w' (getAudioFileName c v) = None))
       \<longrightarrow> files (worldOf (doUpdate env conf w)) (getAudioFileName c v) = Some content"
  proof (intro impI, elim conjE)
    assume c: "CHR ''/'' \<notin> set c" and v: "CHR ''/'' \<notin> set v" and d: "c \<noteq> ''..''"
      and f: "files w (getAudioFileName c v) = Some content"
      and s: "\<forall>(f, e, w') \<in> set (sweepSteps env (Feeds conf) w). ((\<exists>err. os_Stat env w' (getAudioFileName (ChannelId f) (VideoId e)) = Inl err) \<longrightarrow> CHR ''/'' \<notin> set (VideoId e))
               \<and> (getAudioFileName (ChannelId f) (VideoId e) = getAudioFileName c v
                     \<longrightarrow> stat_fault env w' (getAudioFileName c v) = None)"
    show "files (worldOf (doUpdate env conf w)) (getAudioFileName c v) = Some content"
      unfolding doUpdate_def
      by (rule sweepSteps_keeps [OF canonical_has_sep [OF c v d] f s])
  qed
  with updateEntry_renames [where w = w and env = env and feed = feed and entry = entry]
  show ?thesis by blast
qed

theorem sweep_keeps_artifacts_witness:
  "CHR ''/'' \<notin> set ''chan1'' \<and> CHR ''/'' \<notin> set ''vidA'' \<and> ''chan1'' \<noteq> ''..''
   \<and> getAudioFileName ''chan1'' ''vidA'' = ''audio/chan1/vidA.opus''
   \<and> files oneArtifactWorld (getAudioFileName ''chan1'' ''vidA'') = Some ''old''
   \<and> Rename ''tmp.opus'' ''audio/chan1/vidB.opus''
        \<in> set (drop (length (trace oneArtifactWorld))
                 (trace (worldOf (updateEntry sampleEnv feed1 entryB oneArtifactWorld))))
   \<and> (\<exists>err. os_Stat sampleEnv oneArtifactWorld (getAudioFileName (ChannelId feed1) (VideoId entryB)) = Inl err)
   \<and> files (worldOf (doUpdate sampleEnv conf1 oneArtifactWorld)) ''audio/chan1/vidA.opus'' = Some ''old''"
proof -
  have pA: "getAudioFileName ''chan1'' ''vidA'' = ''audio/chan1/vidA.opus''"
    and pB: "getAudioFileName ''chan1'' ''vidB'' = ''audio/chan1/vidB.opus''"
    by (simp_all add: sample_paths)
  have a: "CHR ''/'' \<notin> set ''chan1''" "CHR ''/'' \<notin> set ''vidA''" "''chan1'' \<noteq> ''..''" by simp_all
  have b: "files oneArtifactWorld (getAudioFileName ''chan1'' ''vidA'') = Some ''old''"
    by (simp add: pA oneArtifactWorld_def)
  have ids: "\<And>data entries e. xml_Unmarshal sampleEnv data = Inr entries \<Longrightarrow> e \<in> set entries
              \<Longrightarrow> CHR ''/'' \<notin> set (VideoId e)"
    by (auto simp: sampleEnv_def entryA_def entryB_def entryNews_def split: if_splits)
  have sf: "\<And>w' name. stat_fault sampleEnv w' name = None" by (simp add: sampleEnv_def)
  have c: "\<forall>(f, e, w') \<in> set (sweepSteps sampleEnv (Feeds conf1) oneArtifactWorld). ((\<exists>err. os_Stat sampleEnv w' (getAudioFileName (ChannelId f) (VideoId e)) = Inl err) \<longrightarrow> CHR ''/'' \<notin> set (VideoId e))
               \<and> (getAudioFileName (ChannelId f) (VideoId e) = getAudioFileName ''chan1'' ''vidA''
                     \<longrightarrow> stat_fault sampleEnv w' (getAudioFileName ''chan1'' ''vidA'') = None)"
    using sweepSteps_members [of sampleEnv "Feeds conf1" oneArtifactWorld] ids sf by fastforce
  have r: "Rename ''tmp.opus'' ''audio/chan1/vidB.opus''
        \<in> set (drop (length (trace oneArtifactWorld))
                 (trace (worldOf (updateEntry sampleEnv feed1 entryB oneArtifactWorld))))"
    by (simp add: pB updateEntry_def feed1_def entryB_def os_Stat_def sampleEnv_def
      isVideoReady_def downloadAudio_def recodeAudio_def os_Rename_def os_Remove_def
      emit_def logPrint_def oneArtifactWorld_def Let_def)
  note T = sweep_keeps_artifacts [where w = oneArtifactWorld and env = sampleEnv and feed = feed1
      and entry = entryB and c = "''chan1''" and v = "''vidA''" and content = "''old''" and conf = conf1]
  from T [THEN conjunct1, rule_format, OF r]
  have e: "\<exists>err. os_Stat sampleEnv oneArtifactWorld (getAudioFileName (ChannelId feed1) (VideoId entryB)) = Inl err"
    by blast
  from T [THEN conjunct2] a b c
  have "files (worldOf (doUpdate sampleEnv conf1 oneArtifactWorld)) (getAudioFileName ''chan1'' ''vidA'') = Some ''old''"
    by blast
  then have f: "files (worldOf (doUpdate sampleEnv conf1 oneArtifactWorld)) ''audio/chan1/vidA.opus'' = Some ''old''"
    by (simp add: pA)
  from a pA b r e f show ?thesis by blast
qed

subsection \<open>Feed requests (C8)\<close>









end
